theory Spec2Isabelle
  imports Complex_Main "HOL-Library.Word" "HOL-Library.Code_Target_Nat"
begin

unbundle bit_operations_syntax

section \<open>QWERTY Drum Script engine: parser and compiler\<close>

text \<open>
  A shallow embedding of \<^verbatim>\<open>src/play/engine.ts\<close>: the seeded generator
  \<^verbatim>\<open>mulberry32\<close>, the parser \<^verbatim>\<open>QDSParser.parse\<close> and the compiler
  \<^verbatim>\<open>QDSCompiler.compile\<close> with its private helpers.
\<close>

subsection \<open>JavaScript numbers\<close>

text \<open>
  A JavaScript number is an IEEE double. The model keeps the special values the engine can
  reach (\<^verbatim>\<open>NaN\<close> from a failed \<^verbatim>\<open>parseInt\<close>/\<^verbatim>\<open>parseFloat\<close>, the infinities from
  a division by zero) and computes on finite values exactly, as rationals: rounding is not
  modelled, and neither is the sign of zero (a division of a non-zero finite number by zero
  takes the sign of the numerator). Integers that only ever come from \<^verbatim>\<open>parseInt\<close> of a
  digit string matched by \<^verbatim>\<open>\d+\<close> (velocity, probability, micro shift, roll
  count, track length) are \<open>int\<close> and \<open>nat\<close>, and a digit string is read as the integer
  it writes, however long it is.
\<close>

datatype num = Fin rat | PInf | NInf | NaN

fun num_neg :: "num \<Rightarrow> num" where
  "num_neg (Fin a) = Fin (- a)"
| "num_neg PInf = NInf"
| "num_neg NInf = PInf"
| "num_neg NaN = NaN"

fun num_add :: "num \<Rightarrow> num \<Rightarrow> num" where
  "num_add NaN _ = NaN"
| "num_add _ NaN = NaN"
| "num_add (Fin a) (Fin b) = Fin (a + b)"
| "num_add PInf NInf = NaN"
| "num_add NInf PInf = NaN"
| "num_add PInf _ = PInf"
| "num_add NInf _ = NInf"
| "num_add (Fin a) PInf = PInf"
| "num_add (Fin a) NInf = NInf"

definition num_sub :: "num \<Rightarrow> num \<Rightarrow> num" where
  "num_sub a b = num_add a (num_neg b)"

text \<open>The sign of a number: \<open>1\<close>, \<open>0\<close>, \<open>-1\<close>; \<open>None\<close> for \<^verbatim>\<open>NaN\<close>.\<close>

fun num_sign :: "num \<Rightarrow> int option" where
  "num_sign (Fin a) = Some (if a < 0 then -1 else if a = 0 then 0 else 1)"
| "num_sign PInf = Some 1"
| "num_sign NInf = Some (-1)"
| "num_sign NaN = None"

definition inf_of_sign :: "int \<Rightarrow> num" where
  "inf_of_sign s = (if s = 0 then NaN else if 0 < s then PInf else NInf)"

fun num_mul :: "num \<Rightarrow> num \<Rightarrow> num" where
  "num_mul (Fin a) (Fin b) = Fin (a * b)"
| "num_mul a b =
     (case (num_sign a, num_sign b) of
        (Some s, Some t) \<Rightarrow> inf_of_sign (s * t)
      | _ \<Rightarrow> NaN)"

fun num_div :: "num \<Rightarrow> num \<Rightarrow> num" where
  "num_div NaN _ = NaN"
| "num_div _ NaN = NaN"
| "num_div (Fin a) (Fin b) =
     (if b = 0 then (if a = 0 then NaN else if 0 < a then PInf else NInf) else Fin (a / b))"
| "num_div (Fin a) _ = Fin 0"
| "num_div PInf (Fin b) = (if b < 0 then NInf else PInf)"
| "num_div NInf (Fin b) = (if b < 0 then PInf else NInf)"
| "num_div _ _ = NaN"

text \<open>\<^verbatim>\<open>a < b\<close>; every comparison with \<^verbatim>\<open>NaN\<close> is false.\<close>

fun num_lt :: "num \<Rightarrow> num \<Rightarrow> bool" where
  "num_lt NaN _ = False"
| "num_lt _ NaN = False"
| "num_lt (Fin a) (Fin b) = (a < b)"
| "num_lt NInf NInf = False"
| "num_lt NInf _ = True"
| "num_lt _ NInf = False"
| "num_lt PInf _ = False"
| "num_lt (Fin a) PInf = True"

definition num_gt :: "num \<Rightarrow> num \<Rightarrow> bool" where
  "num_gt a b = num_lt b a"

definition num_le :: "num \<Rightarrow> num \<Rightarrow> bool" where
  "num_le a b = (a \<noteq> NaN \<and> b \<noteq> NaN \<and> \<not> num_lt b a)"

text \<open>Truthiness of a number: \<^verbatim>\<open>0\<close> and \<^verbatim>\<open>NaN\<close> are falsy.\<close>

fun truthy :: "num \<Rightarrow> bool" where
  "truthy (Fin a) = (a \<noteq> 0)"
| "truthy NaN = False"
| "truthy _ = True"

text \<open>\<^verbatim>\<open>Math.ceil\<close>, \<^verbatim>\<open>Math.max\<close> and \<^verbatim>\<open>Math.min\<close> of two arguments.\<close>

fun num_ceil :: "num \<Rightarrow> num" where
  "num_ceil (Fin a) = Fin (of_int \<lceil>a\<rceil>)"
| "num_ceil a = a"

definition num_max :: "num \<Rightarrow> num \<Rightarrow> num" where
  "num_max a b = (if a = NaN \<or> b = NaN then NaN else if num_lt a b then b else a)"

definition num_min :: "num \<Rightarrow> num \<Rightarrow> num" where
  "num_min a b = (if a = NaN \<or> b = NaN then NaN else if num_lt b a then b else a)"

definition num_of_nat :: "nat \<Rightarrow> num" where
  "num_of_nat n = Fin (of_nat n)"

definition num_of_int :: "int \<Rightarrow> num" where
  "num_of_int i = Fin (of_int i)"

text \<open>\<^verbatim>\<open>Math.round\<close> on a finite value: the nearest integer, a tie going up.\<close>

definition math_round :: "rat \<Rightarrow> int" where
  "math_round q = \<lfloor>q + 1 / 2\<rfloor>"

text \<open>
  How often \<^verbatim>\<open>for (let i = 0; i < bound; i++)\<close> runs its body: \<open>None\<close> when the
  bound is \<^verbatim>\<open>Infinity\<close> and the loop never ends.
\<close>

fun loop_count :: "num \<Rightarrow> nat option" where
  "loop_count (Fin a) = Some (nat \<lceil>a\<rceil>)"
| "loop_count PInf = None"
| "loop_count _ = Some 0"

text \<open>\<^verbatim>\<open>x >>> 0\<close>: \<^verbatim>\<open>ToUint32\<close>, truncation towards zero modulo \<open>2^32\<close>.\<close>

fun to_uint32 :: "num \<Rightarrow> 32 word" where
  "to_uint32 (Fin a) = word_of_int (if a < 0 then - \<lfloor>- a\<rfloor> else \<lfloor>a\<rfloor>)"
| "to_uint32 _ = 0"

subsection \<open>Strings\<close>

text \<open>
  A JavaScript string is a sequence of UTF-16 code units; a code unit is a natural
  number here and \<open>cu\<close> gives the code unit of an ASCII character.
\<close>

type_synonym jstring = "nat list"

definition cu :: "char \<Rightarrow> nat" where
  "cu c = of_char c"

definition str :: "string \<Rightarrow> jstring" where
  "str s = map cu s"

text \<open>
  \<^verbatim>\<open>\s\<close> and \<^verbatim>\<open>trim\<close>: white space and line terminators. A \<^verbatim>\<open>.\<close> of a regular
  expression matches every code unit but a line terminator. \<^verbatim>\<open>\d\<close> is an ASCII
  digit.
\<close>

definition is_space :: "nat \<Rightarrow> bool" where
  "is_space c = (c \<in> {9, 10, 11, 12, 13, 32, 160, 5760, 8232, 8233, 8239, 8287, 12288, 65279}
                 \<or> (8192 \<le> c \<and> c \<le> 8202))"

definition is_line_terminator :: "nat \<Rightarrow> bool" where
  "is_line_terminator c = (c \<in> {10, 13, 8232, 8233})"

definition is_digit :: "nat \<Rightarrow> bool" where
  "is_digit c = (48 \<le> c \<and> c \<le> 57)"

definition trim :: "jstring \<Rightarrow> jstring" where
  "trim s = rev (dropWhile is_space (rev (dropWhile is_space s)))"

text \<open>
  A case-insensitive match of ASCII letters (flag \<^verbatim>\<open>i\<close>): a code unit above 127 never
  matches an ASCII letter. \<open>to_upper\<close> is \<^verbatim>\<open>toUpperCase\<close> on ASCII.
\<close>

definition to_upper :: "nat \<Rightarrow> nat" where
  "to_upper c = (if 97 \<le> c \<and> c \<le> 122 then c - 32 else c)"

definition ci_eq :: "nat \<Rightarrow> nat \<Rightarrow> bool" where
  "ci_eq a b = (a < 128 \<and> b < 128 \<and> to_upper a = to_upper b)"

text \<open>Strip a literal prefix, exactly or ignoring ASCII case.\<close>

fun strip_prefix :: "jstring \<Rightarrow> jstring \<Rightarrow> jstring option" where
  "strip_prefix [] s = Some s"
| "strip_prefix (p # ps) [] = None"
| "strip_prefix (p # ps) (c # cs) = (if p = c then strip_prefix ps cs else None)"

fun strip_prefix_ci :: "jstring \<Rightarrow> jstring \<Rightarrow> jstring option" where
  "strip_prefix_ci [] s = Some s"
| "strip_prefix_ci (p # ps) [] = None"
| "strip_prefix_ci (p # ps) (c # cs) = (if ci_eq p c then strip_prefix_ci ps cs else None)"

text \<open>The value of a digit string, as \<^verbatim>\<open>parseInt(digits, 10)\<close> reads it.\<close>

definition digits_val :: "jstring \<Rightarrow> nat" where
  "digits_val ds = foldl (\<lambda>a d. 10 * a + (d - 48)) 0 ds"

text \<open>\<^verbatim>\<open>s.split(sep)\<close> at a single code unit.\<close>

fun split_at :: "nat \<Rightarrow> jstring \<Rightarrow> jstring list" where
  "split_at sep [] = [[]]"
| "split_at sep (c # cs) =
     (if c = sep then [] # split_at sep cs
      else (case split_at sep cs of
              [] \<Rightarrow> [[c]]
            | l # ls \<Rightarrow> (c # l) # ls))"

text \<open>
  A search of a regular expression: the anchored matcher \<open>m\<close> is tried at every
  position from the left, and the first position where it matches wins.
  \<open>last_match\<close> tries the positions from the right.
\<close>

fun first_match :: "(jstring \<Rightarrow> 'a option) \<Rightarrow> jstring \<Rightarrow> 'a option" where
  "first_match m [] = m []"
| "first_match m (c # cs) =
     (case m (c # cs) of Some r \<Rightarrow> Some r | None \<Rightarrow> first_match m cs)"

fun last_match :: "(jstring \<Rightarrow> 'a option) \<Rightarrow> jstring \<Rightarrow> 'a option" where
  "last_match m [] = m []"
| "last_match m (c # cs) =
     (case last_match m cs of Some r \<Rightarrow> Some r | None \<Rightarrow> m (c # cs))"

text \<open>\<^verbatim>\<open>parseInt(s, 10)\<close>: leading white space, an optional sign, digits; else \<^verbatim>\<open>NaN\<close>.\<close>

definition parseInt :: "jstring \<Rightarrow> num" where
  "parseInt s =
     (let s1 = dropWhile is_space s;
          neg = (s1 \<noteq> [] \<and> hd s1 = cu CHR ''-'');
          s2 = (if s1 \<noteq> [] \<and> (hd s1 = cu CHR ''-'' \<or> hd s1 = cu CHR ''+'') then tl s1 else s1);
          ds = takeWhile is_digit s2
      in if ds = [] then NaN
         else if neg then Fin (- of_nat (digits_val ds)) else Fin (of_nat (digits_val ds)))"

text \<open>
  \<^verbatim>\<open>parseFloat(s)\<close>: the longest prefix that is a decimal literal (optional sign,
  \<^verbatim>\<open>Infinity\<close>, or digits with an optional fraction and exponent); \<^verbatim>\<open>NaN\<close> when
  there is none. The value is the exact decimal.
\<close>

definition exponent_part :: "jstring \<Rightarrow> int" where
  "exponent_part s =
     (case s of
        [] \<Rightarrow> 0
      | e # r \<Rightarrow>
          if e = cu CHR ''e'' \<or> e = cu CHR ''E'' then
            (let neg = (r \<noteq> [] \<and> hd r = cu CHR ''-'');
                 r1 = (if r \<noteq> [] \<and> (hd r = cu CHR ''-'' \<or> hd r = cu CHR ''+'') then tl r else r);
                 ds = takeWhile is_digit r1
             in if ds = [] then 0
                else if neg then - int (digits_val ds) else int (digits_val ds))
          else 0)"

definition parseFloat :: "jstring \<Rightarrow> num" where
  "parseFloat s =
     (let s1 = dropWhile is_space s;
          neg = (s1 \<noteq> [] \<and> hd s1 = cu CHR ''-'');
          s2 = (if s1 \<noteq> [] \<and> (hd s1 = cu CHR ''-'' \<or> hd s1 = cu CHR ''+'') then tl s1 else s1)
      in if strip_prefix (str ''Infinity'') s2 \<noteq> None then (if neg then NInf else PInf)
         else
           (let ip = takeWhile is_digit s2;
                r1 = dropWhile is_digit s2;
                dot = (r1 \<noteq> [] \<and> hd r1 = cu CHR ''.'');
                fp = (if dot then takeWhile is_digit (tl r1) else []);
                r2 = (if dot then dropWhile is_digit (tl r1) else r1);
                m = (of_nat (digits_val ip) + of_nat (digits_val fp) / 10 ^ length fp :: rat);
                e = exponent_part r2;
                v = (if 0 \<le> e then m * 10 ^ nat e else m / 10 ^ nat (- e))
            in if ip = [] \<and> fp = [] then NaN
               else Fin (if neg then - v else v)))"

subsection \<open>Data model\<close>

datatype Inst = Q | W | E | R | T | Y

record QDSHeader =
  BPM :: num
  BARS :: num
  GRID :: jstring
  SWING :: num
  SEED :: "num option"
  humanizeMs :: "num option"

record TrackMod =
  grid :: "jstring option"
  lenSteps :: "nat option"

record HitToken =
  inst :: Inst
  velocity :: int
  prob :: int
  microStepsShift :: int
  rolls :: nat

text \<open>
  \<^verbatim>\<open>TimedEvent\<close> has the fields \<^verbatim>\<open>t\<close>, \<^verbatim>\<open>inst\<close> and \<^verbatim>\<open>velocity\<close>; a track line
  has \<^verbatim>\<open>inst\<close>, \<^verbatim>\<open>mods\<close> and \<^verbatim>\<open>pattern\<close>. The field names carry a prefix where
  two records would share one.
\<close>

record TimedEvent =
  ev_t :: num
  ev_inst :: Inst
  ev_velocity :: int

record TrackLine =
  line_inst :: Inst
  mods :: TrackMod
  pattern :: jstring

record ParsedTracks =
  lines :: "TrackLine list"

definition DEFAULT_HEADER :: QDSHeader where
  "DEFAULT_HEADER =
     \<lparr>BPM = Fin 92, BARS = Fin 1, GRID = str ''1/16'', SWING = Fin 50,
      SEED = None, humanizeMs = None\<rparr>"

text \<open>\<^verbatim>\<open>DEFAULT_VEL\<close>, keyed by the marker \<^verbatim>\<open>x\<close>, \<^verbatim>\<open>X\<close> or \<^verbatim>\<open>g\<close>; it is read with no other key.\<close>

definition DEFAULT_VEL :: "nat \<Rightarrow> int" where
  "DEFAULT_VEL k =
     (if k = cu CHR ''x'' then 96 else if k = cu CHR ''X'' then 115
      else if k = cu CHR ''g'' then 60 else 0)"

subsection \<open>Seeded generator\<close>

text \<open>
  \<^verbatim>\<open>mulberry32(seed)\<close> returns a closure over the 32-bit state \<^verbatim>\<open>a\<close>;
  \<open>mulberry32_next\<close> is one call of the closure: the value returned and the new state.
\<close>

definition mulberry32 :: "num \<Rightarrow> 32 word" where
  "mulberry32 seed = to_uint32 seed"

definition mulberry32_next :: "32 word \<Rightarrow> rat \<times> 32 word" where
  "mulberry32_next a0 =
     (let a = a0 + 0x6d2b79f5;
          t1 = (a XOR drop_bit 15 a) * (1 OR a);
          t2 = (t1 + (t1 XOR drop_bit 7 t1) * (61 OR t1)) XOR t1
      in (of_nat (unat (t2 XOR drop_bit 14 t2)) / 4294967296, a))"

text \<open>
  The generator a compiler holds: the seeded closure, or \<^verbatim>\<open>Math.random\<close>, whose values
  are an external sequence read at a position.
\<close>

datatype rng = Mulberry "32 word" | MathRandom "nat \<Rightarrow> rat" nat

fun draw :: "rng \<Rightarrow> rat \<times> rng" where
  "draw (Mulberry a) = (case mulberry32_next a of (v, a') \<Rightarrow> (v, Mulberry a'))"
| "draw (MathRandom f n) = (f n, MathRandom f (Suc n))"

subsection \<open>Pattern tokenizer\<close>

text \<open>
  The length of a modifier suffix at the head of \<open>s\<close>, as
  \<^verbatim>\<open>/^(\^[-+]?\d+|\{[^}]*\}|\[p=\d+\]|-)/\<close> matches it.
\<close>

definition mod_len :: "jstring \<Rightarrow> nat option" where
  "mod_len s =
     (case s of
        [] \<Rightarrow> None
      | c # r \<Rightarrow>
          if c = cu CHR ''^'' then
            (let k = (if r \<noteq> [] \<and> (hd r = cu CHR ''-'' \<or> hd r = cu CHR ''+'') then 1 else 0);
                 ds = takeWhile is_digit (drop k r)
             in if ds = [] then None else Some (1 + k + length ds))
          else if c = cu CHR ''{'' then
            (if dropWhile (\<lambda>x. x \<noteq> cu CHR ''}'') r = [] then None
             else Some (length (takeWhile (\<lambda>x. x \<noteq> cu CHR ''}'') r) + 2))
          else if c = cu CHR ''['' then
            (case strip_prefix (str ''p='') r of
               None \<Rightarrow> None
             | Some r1 \<Rightarrow>
                 (let ds = takeWhile is_digit r1 in
                  if ds \<noteq> [] \<and> take 1 (dropWhile is_digit r1) = str '']''
                  then Some (length ds + 4) else None))
          else if c = cu CHR ''-'' then Some 1
          else None)"

lemma mod_len_pos: "mod_len s = Some n \<Longrightarrow> 0 < n \<and> s \<noteq> []"
  by (auto simp: mod_len_def Let_def split: list.splits if_splits option.splits)

text \<open>The inner loop of \<^verbatim>\<open>tokenizePattern\<close>: the modifier suffixes and what follows them.\<close>

function take_mods :: "jstring \<Rightarrow> jstring \<times> jstring" where
  "take_mods s =
     (case mod_len s of
        None \<Rightarrow> ([], s)
      | Some n \<Rightarrow> (case take_mods (drop n s) of (m, r) \<Rightarrow> (take n s @ m, r)))"
  by pat_completeness auto
termination
  by (relation "measure length") (auto dest: mod_len_pos)

declare take_mods.simps [simp del]

lemma take_mods_length: "length (snd (take_mods s)) \<le> length s"
proof (induction s rule: take_mods.induct)
  case (1 s)
  show ?case
  proof (cases "mod_len s")
    case None
    then show ?thesis by (subst take_mods.simps) simp
  next
    case (Some n)
    with 1 have IH: "length (snd (take_mods (drop n s))) \<le> length (drop n s)" by simp
    have "take_mods s = (take n s @ fst (take_mods (drop n s)), snd (take_mods (drop n s)))"
      by (subst take_mods.simps) (simp add: Some split: prod.splits)
    with IH show ?thesis by simp
  qed
qed

text \<open>
  The marker at the head of the rest: \<^verbatim>\<open>x\<close>, \<^verbatim>\<open>X\<close>, \<^verbatim>\<open>g\<close>, or \<^verbatim>\<open>r\<close> with its
  digits; an \<^verbatim>\<open>r\<close> with no digit becomes \<^verbatim>\<open>x\<close>.
\<close>

definition take_marker :: "nat \<Rightarrow> jstring \<Rightarrow> jstring \<times> jstring" where
  "take_marker ch rest =
     (if ch = cu CHR ''r'' then
        (if takeWhile is_digit rest \<noteq> []
         then (ch # takeWhile is_digit rest, dropWhile is_digit rest)
         else (str ''x'', rest))
      else ([ch], rest))"

lemma take_marker_length: "length (snd (take_marker ch rest)) \<le> length rest"
  by (simp add: take_marker_def length_dropWhile_le)

function tokenize_loop :: "jstring \<Rightarrow> jstring option list" where
  "tokenize_loop [] = []"
| "tokenize_loop (ch # rest) =
     (if ch = cu CHR ''.'' then None # tokenize_loop rest
      else if ch = cu CHR ''-'' then None # tokenize_loop rest
      else if ch = cu CHR ''x'' \<or> ch = cu CHR ''X'' \<or> ch = cu CHR ''g'' \<or> ch = cu CHR ''r'' then
        Some (fst (take_marker ch rest) @ fst (take_mods (snd (take_marker ch rest))))
          # tokenize_loop (snd (take_mods (snd (take_marker ch rest))))
      else tokenize_loop rest)"
  by pat_completeness auto
termination
proof (relation "measure length")
  fix ch :: nat and rest :: jstring
  have "length (snd (take_mods (snd (take_marker ch rest)))) \<le> length rest"
    using take_mods_length [of "snd (take_marker ch rest)"] take_marker_length [of ch rest]
    by linarith
  then show "(snd (take_mods (snd (take_marker ch rest))), ch # rest) \<in> measure length"
    by simp
qed auto

definition tokenizePattern :: "jstring \<Rightarrow> jstring option list" where
  "tokenizePattern p = tokenize_loop (filter (\<lambda>c. c \<noteq> cu CHR ''|'') p)"

subsection \<open>Cell expander\<close>

text \<open>The marker of a cell: \<^verbatim>\<open>cell.match(/^(x|X|g|r\d+)/)\<close>.\<close>

definition cell_head :: "jstring \<Rightarrow> jstring option" where
  "cell_head cell =
     (case cell of
        [] \<Rightarrow> None
      | c # r \<Rightarrow>
          if c = cu CHR ''x'' \<or> c = cu CHR ''X'' \<or> c = cu CHR ''g'' then Some [c]
          else if c = cu CHR ''r'' \<and> takeWhile is_digit r \<noteq> [] then Some (c # takeWhile is_digit r)
          else None)"

text \<open>
  The three modifier expressions, anchored at the head of \<open>s\<close>, each with the number its
  group holds: \<^verbatim>\<open>\^([+-]?\d+)\<close>, \<^verbatim>\<open>\[p=(\d+)\]\<close> (flag \<^verbatim>\<open>i\<close>) and
  \<^verbatim>\<open>\{[^}]*vel\s*=\s*(\d+)[^}]*\}\<close> (flag \<^verbatim>\<open>i\<close>). In the last one the greedy
  \<^verbatim>\<open>[^}]*\<close> gives way from the right, so the last \<^verbatim>\<open>vel=\<close> before the closing brace
  is the one read.
\<close>

definition shift_at :: "jstring \<Rightarrow> int option" where
  "shift_at s =
     (case s of
        [] \<Rightarrow> None
      | c # r \<Rightarrow>
          if c = cu CHR ''^'' then
            (let neg = (r \<noteq> [] \<and> hd r = cu CHR ''-'');
                 r1 = (if r \<noteq> [] \<and> (hd r = cu CHR ''-'' \<or> hd r = cu CHR ''+'') then tl r else r);
                 ds = takeWhile is_digit r1
             in if ds = [] then None
                else Some (if neg then - int (digits_val ds) else int (digits_val ds)))
          else None)"

definition prob_at :: "jstring \<Rightarrow> nat option" where
  "prob_at s =
     (case s of
        b # p # e # r \<Rightarrow>
          if b = cu CHR ''['' \<and> ci_eq p (cu CHR ''p'') \<and> e = cu CHR ''='' \<and>
             takeWhile is_digit r \<noteq> [] \<and> take 1 (dropWhile is_digit r) = str '']''
          then Some (digits_val (takeWhile is_digit r)) else None
      | _ \<Rightarrow> None)"

definition vel_kv :: "jstring \<Rightarrow> nat option" where
  "vel_kv s =
     (case strip_prefix_ci (str ''vel'') s of
        None \<Rightarrow> None
      | Some r \<Rightarrow>
          (case dropWhile is_space r of
             [] \<Rightarrow> None
           | e # r1 \<Rightarrow>
               if e = cu CHR ''='' \<and> takeWhile is_digit (dropWhile is_space r1) \<noteq> []
               then Some (digits_val (takeWhile is_digit (dropWhile is_space r1)))
               else None))"

definition vel_at :: "jstring \<Rightarrow> nat option" where
  "vel_at s =
     (case s of
        [] \<Rightarrow> None
      | c # r \<Rightarrow>
          if c = cu CHR ''{'' \<and> dropWhile (\<lambda>x. x \<noteq> cu CHR ''}'') r \<noteq> []
          then last_match vel_kv (takeWhile (\<lambda>x. x \<noteq> cu CHR ''}'') r)
          else None)"

text \<open>The loop of \<^verbatim>\<open>expandCell\<close> that pushes the hits of a roll, from index \<open>k\<close> on.\<close>

function roll_loop :: "Inst \<Rightarrow> int \<Rightarrow> int \<Rightarrow> int \<Rightarrow> nat \<Rightarrow> nat \<Rightarrow> HitToken list" where
  "roll_loop i v p m n k =
     (if k < n then
        \<lparr>inst = i, velocity = v, prob = p,
         microStepsShift = m + math_round (of_nat (k * 4) / of_nat (max 1 n)),
         rolls = n\<rparr> # roll_loop i v p m n (Suc k)
      else [])"
  by pat_completeness auto
termination
  by (relation "measure (\<lambda>(i, v, p, m, n, k). n - k)") auto

declare roll_loop.simps [simp del]

definition expandCell :: "Inst \<Rightarrow> jstring option \<Rightarrow> HitToken list" where
  "expandCell i cell =
     (case cell of
        None \<Rightarrow> []
      | Some c \<Rightarrow>
          (case cell_head c of
             None \<Rightarrow> []
           | Some head \<Rightarrow>
               (let is_roll = (hd head = cu CHR ''r'');
                    vel0 = (if is_roll then DEFAULT_VEL (cu CHR ''x'') else DEFAULT_VEL (hd head));
                    n = (if is_roll then digits_val (tl head) else 0);
                    ms = drop (length head) c;
                    m = (if ms = [] then 0
                         else (case first_match shift_at ms of Some x \<Rightarrow> x | None \<Rightarrow> 0));
                    p = (if ms = [] then 100
                         else (case first_match prob_at ms of
                                 Some x \<Rightarrow> max 0 (min 100 (int x))
                               | None \<Rightarrow> 100));
                    v = (if ms = [] then vel0
                         else (case first_match vel_at ms of
                                 Some x \<Rightarrow> max 0 (min 127 (int x))
                               | None \<Rightarrow> vel0))
                in if n \<noteq> 0 \<and> 1 < n then roll_loop i v p m n 0
                   else [\<lparr>inst = i, velocity = v, prob = p, microStepsShift = m, rolls = 0\<rparr>])))"

subsection \<open>Grid and tempo\<close>

text \<open>\<^verbatim>\<open>parseInt(grid.split("/")[1], 10)\<close>; a missing second piece reads as \<^verbatim>\<open>NaN\<close>.\<close>

definition grid_denom :: "jstring \<Rightarrow> num" where
  "grid_denom g = (case split_at (cu CHR ''/'') g of _ # d # _ \<Rightarrow> parseInt d | _ \<Rightarrow> NaN)"

definition stepsPerBar :: "jstring \<Rightarrow> num" where
  "stepsPerBar g =
     (let denom = grid_denom g;
          stepsPerBeat = num_div denom (Fin 4)
      in num_mul stepsPerBeat (Fin 4))"

definition stepMs :: "jstring \<Rightarrow> num \<Rightarrow> num" where
  "stepMs g bpm =
     (let denom = grid_denom g;
          beatMs = num_div (Fin 60000) bpm;
          stepsPerBeat = num_div denom (Fin 4)
      in num_div beatMs stepsPerBeat)"

definition barMs :: "jstring \<Rightarrow> num \<Rightarrow> num" where
  "barMs g bpm = num_mul (stepMs g bpm) (stepsPerBar g)"

definition swingOffsetMs :: "nat \<Rightarrow> num \<Rightarrow> num \<Rightarrow> num" where
  "swingOffsetMs stepIndex sms swing =
     (if num_le swing (Fin 50) then Fin 0
      else if stepIndex mod 2 = 1 then
        (let amt = num_div (num_sub swing (Fin 50)) (Fin 50)
         in num_mul amt (num_mul sms (Fin (1 / 2))))
      else Fin 0)"

subsection \<open>Objects as records of sections\<close>

text \<open>
  \<^verbatim>\<open>sections\<close> is a plain object \<^verbatim>\<open>{}\<close> used as a dictionary. Its own properties are
  an association list in insertion order. A read \<^verbatim>\<open>sections[name]\<close> of a name that is no
  own property goes to \<^verbatim>\<open>Object.prototype\<close>, whose properties are all truthy and have
  no \<^verbatim>\<open>lines\<close>. \<^verbatim>\<open>Object.keys\<close> lists the own keys that are array indices first, in
  ascending numeric order, and then the other keys in insertion order.
\<close>

type_synonym 'a object = "(jstring \<times> 'a) list"

datatype 'a js_prop = Own 'a | Inherited | Undefined

definition object_prototype_keys :: "jstring list" where
  "object_prototype_keys =
     map str [''constructor'', ''__defineGetter__'', ''__defineSetter__'', ''hasOwnProperty'',
              ''__lookupGetter__'', ''__lookupSetter__'', ''isPrototypeOf'',
              ''propertyIsEnumerable'', ''toString'', ''valueOf'', ''__proto__'',
              ''toLocaleString'']"

definition get_prop :: "'a object \<Rightarrow> jstring \<Rightarrow> 'a js_prop" where
  "get_prop ob k =
     (case map_of ob k of
        Some v \<Rightarrow> Own v
      | None \<Rightarrow> if k \<in> set object_prototype_keys then Inherited else Undefined)"

text \<open>An array index: the canonical decimal string of an integer below \<open>2^32 - 1\<close>.\<close>

definition is_array_index :: "jstring \<Rightarrow> bool" where
  "is_array_index k =
     (k \<noteq> [] \<and> list_all is_digit k \<and> (hd k \<noteq> cu CHR ''0'' \<or> length k = 1) \<and>
      digits_val k < 4294967295)"

definition object_keys :: "'a object \<Rightarrow> jstring list" where
  "object_keys ob =
     sort_key digits_val (filter is_array_index (map fst ob))
       @ filter (\<lambda>k. \<not> is_array_index k) (map fst ob)"

type_synonym sections = "ParsedTracks object"

subsection \<open>Compiler\<close>

text \<open>
  What ends a call without a result: a \<^verbatim>\<open>TypeError\<close> thrown by a read of a property of
  \<^verbatim>\<open>undefined\<close>, or a loop whose bound is \<^verbatim>\<open>Infinity\<close> and which therefore never
  ends. The limits of the engine on the size of an array and of an argument list are not
  modelled.
\<close>

datatype failure = TypeError | Hang

text \<open>A compiler instance: the header and the generator the constructor chose.\<close>

record QDSCompiler =
  c_header :: QDSHeader
  c_rng :: rng

text \<open>
  The constructor; \<open>random\<close> is \<^verbatim>\<open>Math.random\<close> as the instance finds it.
  \<^verbatim>\<open>typeof header.SEED === "number"\<close> holds for every number, \<^verbatim>\<open>NaN\<close> too.
\<close>

definition new_QDSCompiler :: "QDSHeader \<Rightarrow> rng \<Rightarrow> QDSCompiler" where
  "new_QDSCompiler h random =
     \<lparr>c_header = h,
      c_rng = (case SEED h of Some seed \<Rightarrow> Mulberry (mulberry32 seed) | None \<Rightarrow> random)\<rparr>"

text \<open>\<^verbatim>\<open>cells[idx]\<close>: \<^verbatim>\<open>undefined\<close> and \<^verbatim>\<open>null\<close> are both \<open>None\<close>.\<close>

definition array_get :: "jstring option list \<Rightarrow> num \<Rightarrow> jstring option" where
  "array_get cells idx =
     (case idx of
        Fin q \<Rightarrow>
          if 0 \<le> q \<and> of_int \<lfloor>q\<rfloor> = q \<and> nat \<lfloor>q\<rfloor> < length cells then cells ! nat \<lfloor>q\<rfloor> else None
      | _ \<Rightarrow> None)"

text \<open>
  The body of \<^verbatim>\<open>for (const h of hits)\<close>: the probability gate, the humanize jitter
  and the event, if the hit survives; the generator after the draws.
\<close>

definition emit_hit ::
  "QDSHeader \<Rightarrow> num \<Rightarrow> nat \<Rightarrow> nat \<Rightarrow> num \<Rightarrow> num \<Rightarrow> num \<Rightarrow> rng \<Rightarrow> HitToken
     \<Rightarrow> TimedEvent option \<times> rng" where
  "emit_hit h tCursor bar s spb sms swingOffset g tok =
     (case (if prob tok < 100
            then (case draw g of (x, g') \<Rightarrow> (of_int (prob tok) < x * 100, g'))
            else (False, g)) of
        (skip, g1) \<Rightarrow>
          if skip then (None, g1)
          else
            (case (case humanizeMs h of
                     Some hm \<Rightarrow>
                       if truthy hm
                       then (case draw g1 of
                               (x, g') \<Rightarrow> (num_mul (num_sub (num_mul (Fin x) (Fin 2)) (Fin 1)) hm, g'))
                       else (Fin 0, g1)
                   | None \<Rightarrow> (Fin 0, g1)) of
               (human, g2) \<Rightarrow>
                 (let microMs = num_div sms (Fin 4);
                      micro = num_mul (num_of_int (microStepsShift tok)) microMs;
                      when =
                        num_add
                          (num_add
                             (num_add
                                (num_add
                                   (num_add tCursor (num_mul (num_mul (num_of_nat bar) spb) sms))
                                   (num_mul (num_of_nat s) sms))
                                swingOffset)
                             micro)
                          human
                  in (Some \<lparr>ev_t = when, ev_inst = inst tok, ev_velocity = velocity tok\<rparr>, g2))))"

fun hits_loop ::
  "QDSHeader \<Rightarrow> num \<Rightarrow> nat \<Rightarrow> nat \<Rightarrow> num \<Rightarrow> num \<Rightarrow> num \<Rightarrow> rng \<Rightarrow> HitToken list
     \<Rightarrow> TimedEvent list \<times> rng" where
  "hits_loop h tCursor bar s spb sms swingOffset g [] = ([], g)"
| "hits_loop h tCursor bar s spb sms swingOffset g (tok # toks) =
     (case emit_hit h tCursor bar s spb sms swingOffset g tok of
        (e, g1) \<Rightarrow>
          (case hits_loop h tCursor bar s spb sms swingOffset g1 toks of
             (es, g2) \<Rightarrow> ((case e of None \<Rightarrow> es | Some x \<Rightarrow> x # es), g2)))"

text \<open>
  The loop \<^verbatim>\<open>for (let s = 0; s < stepsPerBar; s++)\<close> of one bar, over the step indices
  it still has to visit: the events pushed and the generator after them.
\<close>

fun step_loop ::
  "QDSHeader \<Rightarrow> num \<Rightarrow> Inst \<Rightarrow> num \<Rightarrow> num \<Rightarrow> jstring option list \<Rightarrow> nat \<Rightarrow> nat list \<Rightarrow> rng
     \<Rightarrow> TimedEvent list \<times> rng" where
  "step_loop h tCursor i spb sms cells bar [] g = ([], g)"
| "step_loop h tCursor i spb sms cells bar (s # ss) g =
     (let idx = num_add (num_mul (num_of_nat bar) spb) (num_of_nat s)
      in if num_le (num_of_nat (length cells)) idx then ([], g)
         else
           (case array_get cells idx of
              None \<Rightarrow> step_loop h tCursor i spb sms cells bar ss g
            | Some cell \<Rightarrow>
                if cell = [] then step_loop h tCursor i spb sms cells bar ss g
                else
                  (let swingOffset = swingOffsetMs s sms (SWING h);
                       hits = expandCell i (Some cell)
                   in (case hits_loop h tCursor bar s spb sms swingOffset g hits of
                         (es, g1) \<Rightarrow>
                           (case step_loop h tCursor i spb sms cells bar ss g1 of
                              (es', g2) \<Rightarrow> (es @ es', g2))))))"

text \<open>
  One bar. With \<^verbatim>\<open>stepsPerBar\<close> infinite the step loop has no bound: its first index
  is \<^verbatim>\<open>NaN\<close> or \<^verbatim>\<open>Infinity\<close> and so are all the others, so it either breaks at once
  or reads no cell for ever.
\<close>

definition bar_steps ::
  "QDSHeader \<Rightarrow> num \<Rightarrow> Inst \<Rightarrow> num \<Rightarrow> num \<Rightarrow> jstring option list \<Rightarrow> nat \<Rightarrow> rng
     \<Rightarrow> failure + TimedEvent list \<times> rng" where
  "bar_steps h tCursor i spb sms cells bar g =
     (case loop_count spb of
        Some n \<Rightarrow> Inr (step_loop h tCursor i spb sms cells bar [0..<n] g)
      | None \<Rightarrow>
          if num_le (num_of_nat (length cells)) (num_mul (num_of_nat bar) spb)
          then Inr ([], g) else Inl Hang)"

fun bar_loop ::
  "QDSHeader \<Rightarrow> num \<Rightarrow> Inst \<Rightarrow> num \<Rightarrow> num \<Rightarrow> jstring option list \<Rightarrow> nat list \<Rightarrow> rng
     \<Rightarrow> failure + TimedEvent list \<times> rng" where
  "bar_loop h tCursor i spb sms cells [] g = Inr ([], g)"
| "bar_loop h tCursor i spb sms cells (bar # bars) g =
     (case bar_steps h tCursor i spb sms cells bar g of
        Inl e \<Rightarrow> Inl e
      | Inr (es, g1) \<Rightarrow>
          (case bar_loop h tCursor i spb sms cells bars g1 of
             Inl e \<Rightarrow> Inl e
           | Inr (es', g2) \<Rightarrow> Inr (es @ es', g2)))"

text \<open>The body of \<^verbatim>\<open>for (const line of sec.lines)\<close>.\<close>

definition line_grid :: "QDSHeader \<Rightarrow> TrackLine \<Rightarrow> jstring" where
  "line_grid h line =
     (case grid (mods line) of
        Some x \<Rightarrow> if x \<noteq> [] then x else GRID h
      | None \<Rightarrow> GRID h)"

definition line_stepsPerBar :: "QDSHeader \<Rightarrow> TrackLine \<Rightarrow> num" where
  "line_stepsPerBar h line =
     (case lenSteps (mods line) of
        Some n \<Rightarrow> if n \<noteq> 0 then num_of_nat n else stepsPerBar (line_grid h line)
      | None \<Rightarrow> stepsPerBar (line_grid h line))"

definition barsToUse :: "QDSHeader \<Rightarrow> num \<Rightarrow> nat \<Rightarrow> num" where
  "barsToUse h spb totalSteps =
     (let c = num_ceil (num_div (num_of_nat totalSteps) spb);
          barsInLine = (if truthy c then c else Fin 1)
      in num_max barsInLine (BARS h))"

definition render_line ::
  "QDSHeader \<Rightarrow> num \<Rightarrow> rng \<Rightarrow> TrackLine \<Rightarrow> failure + TimedEvent list \<times> rng" where
  "render_line h tCursor g line =
     (let spb = line_stepsPerBar h line;
          sms = stepMs (line_grid h line) (BPM h);
          cells = tokenizePattern (pattern line)
      in (case loop_count (barsToUse h spb (length cells)) of
            None \<Rightarrow> Inl Hang
          | Some nb \<Rightarrow> bar_loop h tCursor (line_inst line) spb sms cells [0..<nb] g))"

fun lines_loop ::
  "QDSHeader \<Rightarrow> num \<Rightarrow> TrackLine list \<Rightarrow> rng \<Rightarrow> failure + TimedEvent list \<times> rng" where
  "lines_loop h tCursor [] g = Inr ([], g)"
| "lines_loop h tCursor (line # ls) g =
     (case render_line h tCursor g line of
        Inl e \<Rightarrow> Inl e
      | Inr (es, g1) \<Rightarrow>
          (case lines_loop h tCursor ls g1 of
             Inl e \<Rightarrow> Inl e
           | Inr (es', g2) \<Rightarrow> Inr (es @ es', g2)))"

text \<open>
  \<^verbatim>\<open>trackEvents.sort((a, b) => a.t - b.t)\<close>: a stable sort. An event moves behind
  the events already placed while the comparator is positive; a comparator that is
  \<^verbatim>\<open>NaN\<close> counts as zero. Two things follow from the number model. Times that are
  equal here can differ in their last bit as doubles (at 92 BPM a step is 3750/23 ms), and
  the engine then orders the two events by that difference instead of keeping them in
  track order. And when some times of a section are \<^verbatim>\<open>NaN\<close> and others are not, the
  comparator is not a consistent order and the standard leaves the result of the sort to
  the engine; the model gives the result of a stable insertion.
\<close>

definition cmp_pos :: "TimedEvent \<Rightarrow> TimedEvent \<Rightarrow> bool" where
  "cmp_pos a b = num_lt (Fin 0) (num_sub (ev_t a) (ev_t b))"

fun insert_event :: "TimedEvent \<Rightarrow> TimedEvent list \<Rightarrow> TimedEvent list" where
  "insert_event e [] = [e]"
| "insert_event e (x # xs) = (if cmp_pos e x then x # insert_event e xs else e # x # xs)"

definition sort_events :: "TimedEvent list \<Rightarrow> TimedEvent list" where
  "sort_events es = foldr insert_event es []"

text \<open>
  One turn of \<^verbatim>\<open>for (const secName of seqSections)\<close> on a section that exists: the
  sorted events of the section, the cursor after it and the generator.
\<close>

definition play_section ::
  "QDSHeader \<Rightarrow> num \<Rightarrow> rng \<Rightarrow> ParsedTracks \<Rightarrow> failure + TimedEvent list \<times> num \<times> rng" where
  "play_section h tCursor g sec =
     (case lines_loop h tCursor (lines sec) g of
        Inl e \<Rightarrow> Inl e
      | Inr (trackEvents, g1) \<Rightarrow>
          (let secLenMs = num_mul (BARS h) (barMs (GRID h) (BPM h))
           in Inr (sort_events trackEvents, num_add tCursor secLenMs, g1)))"

fun section_loop ::
  "QDSHeader \<Rightarrow> sections \<Rightarrow> jstring list \<Rightarrow> TimedEvent list \<Rightarrow> num \<Rightarrow> rng
     \<Rightarrow> failure + TimedEvent list \<times> num \<times> rng" where
  "section_loop h secs [] events tCursor g = Inr (events, tCursor, g)"
| "section_loop h secs (secName # names) events tCursor g =
     (case get_prop secs secName of
        Undefined \<Rightarrow> section_loop h secs names events tCursor g
      | Inherited \<Rightarrow> Inl TypeError
      | Own sec \<Rightarrow>
          (case play_section h tCursor g sec of
             Inl e \<Rightarrow> Inl e
           | Inr (trackEvents, tCursor', g1) \<Rightarrow>
               section_loop h secs names (events @ trackEvents) tCursor' g1))"

text \<open>\<^verbatim>\<open>Math.min(...ts)\<close>; \<^verbatim>\<open>Infinity\<close> for no argument.\<close>

definition math_min :: "num list \<Rightarrow> num" where
  "math_min ts = foldl num_min PInf ts"

definition normalize :: "TimedEvent list \<Rightarrow> TimedEvent list" where
  "normalize events =
     (let minT = (if events \<noteq> [] then math_min (map ev_t events) else Fin 0)
      in if minT \<noteq> Fin 0 then map (\<lambda>e. e\<lparr>ev_t := num_sub (ev_t e) minT\<rparr>) events
         else events)"

definition seqSections :: "sections \<Rightarrow> jstring list option \<Rightarrow> jstring list" where
  "seqSections secs order =
     (case order of
        Some names \<Rightarrow> if names \<noteq> [] then names else object_keys secs
      | None \<Rightarrow> object_keys secs)"

text \<open>
  \<^verbatim>\<open>compile(sections, order)\<close> on an instance: the events returned and the instance
  after the call, whose generator has moved on by the draws of the call.
\<close>

definition compile ::
  "QDSCompiler \<Rightarrow> sections \<Rightarrow> jstring list option \<Rightarrow> failure + TimedEvent list \<times> QDSCompiler" where
  "compile c secs order =
     (case section_loop (c_header c) secs (seqSections secs order) [] (Fin 0) (c_rng c) of
        Inl e \<Rightarrow> Inl e
      | Inr (events, tCursor, g) \<Rightarrow> Inr (normalize events, c\<lparr>c_rng := g\<rparr>))"

subsection \<open>Parser\<close>

record Parsed =
  header :: QDSHeader
  sections :: sections
  order :: "jstring list option"

text \<open>The variables of the loop of \<^verbatim>\<open>parse\<close>.\<close>

record pstate =
  p_header :: QDSHeader
  p_sections :: sections
  currentSection :: jstring
  p_order :: "jstring list option"

text \<open>\<^verbatim>\<open>src.replace(/\t/g, "  ").split(/\r?\n/)\<close>.\<close>

definition replace_tabs :: "jstring \<Rightarrow> jstring" where
  "replace_tabs src = concat (map (\<lambda>c. if c = 9 then [32, 32] else [c]) src)"

definition cons_head :: "nat \<Rightarrow> jstring list \<Rightarrow> jstring list" where
  "cons_head c ls = (case ls of [] \<Rightarrow> [[c]] | l # ls' \<Rightarrow> (c # l) # ls')"

fun split_lines :: "jstring \<Rightarrow> jstring list" where
  "split_lines [] = [[]]"
| "split_lines [c] = (if c = 10 then [[], []] else [[c]])"
| "split_lines (c # d # cs) =
     (if c = 10 then [] # split_lines (d # cs)
      else if c = 13 \<and> d = 10 then [] # split_lines cs
      else cons_head c (split_lines (d # cs)))"

text \<open>
  The tail \<^verbatim>\<open>\s*(.+)$\<close> of the header and track expressions, on what follows the
  colon: the greedy \<^verbatim>\<open>\s*\<close> takes the leading white space and the group the rest, up
  to the end, with no line terminator in it; when all is white space the last code unit
  is left to the group.
\<close>

definition no_line_terminator :: "jstring \<Rightarrow> bool" where
  "no_line_terminator s = list_all (\<lambda>c. \<not> is_line_terminator c) s"

definition rest_group :: "jstring \<Rightarrow> jstring option" where
  "rest_group r =
     (let v = dropWhile is_space r
      in if v \<noteq> [] then (if no_line_terminator v then Some v else None)
         else if r \<noteq> [] \<and> \<not> is_line_terminator (last r) then Some [last r]
         else None)"

text \<open>\<^verbatim>\<open>line.match(/^%humanize=\s*\<plusminus>?(\d+)ms$/i)\<close>: the digits.\<close>

definition humanizeMatch :: "jstring \<Rightarrow> jstring option" where
  "humanizeMatch line =
     (case strip_prefix_ci (str ''%humanize='') line of
        None \<Rightarrow> None
      | Some r \<Rightarrow>
          (let r1 = dropWhile is_space r;
               r2 = (if r1 \<noteq> [] \<and> hd r1 = 177 then tl r1 else r1)
           in if takeWhile is_digit r2 \<noteq> [] \<and>
                 strip_prefix_ci (str ''ms'') (dropWhile is_digit r2) = Some []
              then Some (takeWhile is_digit r2) else None))"

text \<open>\<^verbatim>\<open>/^ORDER\s*:/.test(line)\<close>.\<close>

definition is_order_line :: "jstring \<Rightarrow> bool" where
  "is_order_line line =
     (case strip_prefix (str ''ORDER'') line of
        None \<Rightarrow> False
      | Some r \<Rightarrow> take 1 (dropWhile is_space r) = str '':'')"

text \<open>
  \<^verbatim>\<open>p.match(/^(.*?)\s+x(\d+|\<infinity>)$/i)\<close>, read from the end: the count, the
  \<^verbatim>\<open>x\<close>, the white space before it, and a name with no line terminator. The result
  is the trimmed name and how often it is pushed (once for \<^verbatim>\<open>\<infinity>\<close>).
\<close>

definition order_entry :: "jstring \<Rightarrow> (jstring \<times> nat) option" where
  "order_entry p =
     (let r = rev p;
          inf = (r \<noteq> [] \<and> hd r = 8734);
          ds = rev (takeWhile is_digit r);
          r1 = (if inf then tl r else dropWhile is_digit r)
      in if \<not> inf \<and> ds = [] then None
         else
           (case r1 of
              [] \<Rightarrow> None
            | x # r2 \<Rightarrow>
                if ci_eq x (cu CHR ''x'') \<and> takeWhile is_space r2 \<noteq> [] \<and>
                   no_line_terminator (dropWhile is_space r2)
                then Some (trim (rev (dropWhile is_space r2)), if inf then 1 else digits_val ds)
                else None))"

text \<open>
  The body of the \<^verbatim>\<open>ORDER\<close> branch: \<^verbatim>\<open>rhs\<close> is \<^verbatim>\<open>line.split(":")[1]\<close>, which
  exists since the line has a colon.
\<close>

definition order_parts :: "jstring \<Rightarrow> jstring list" where
  "order_parts line =
     (case split_at (cu CHR '':'') line of
        _ # rhs # _ \<Rightarrow> filter (\<lambda>s. s \<noteq> []) (map trim (split_at (cu CHR '','') rhs))
      | _ \<Rightarrow> [])"

definition expand_order :: "jstring \<Rightarrow> jstring list" where
  "expand_order line =
     concat (map (\<lambda>p. case order_entry p of
                         None \<Rightarrow> []
                       | Some (name, n) \<Rightarrow> replicate n name) (order_parts line))"

text \<open>\<^verbatim>\<open>line.match(/^\[(.+?)\]$/)\<close>: what stands between the brackets.\<close>

definition secMatch :: "jstring \<Rightarrow> jstring option" where
  "secMatch line =
     (if 3 \<le> length line \<and> hd line = cu CHR ''['' \<and> last line = cu CHR '']'' \<and>
         no_line_terminator (butlast (tl line))
      then Some (butlast (tl line)) else None)"

text \<open>
  \<^verbatim>\<open>line.match(/^(BPM|BARS|GRID|SWING|SEED)\s*:\s*(.+)$/i)\<close>: the key in upper case
  and the value.
\<close>

definition kv_key :: "string \<Rightarrow> jstring \<Rightarrow> (string \<times> jstring) option" where
  "kv_key k line =
     (case strip_prefix_ci (str k) line of
        None \<Rightarrow> None
      | Some r \<Rightarrow>
          (case dropWhile is_space r of
             [] \<Rightarrow> None
           | c # r1 \<Rightarrow>
               if c = cu CHR '':'' then map_option (\<lambda>v. (k, v)) (rest_group r1) else None))"

definition kvMatch :: "jstring \<Rightarrow> (string \<times> jstring) option" where
  "kvMatch line =
     (case kv_key ''BPM'' line of Some r \<Rightarrow> Some r | None \<Rightarrow>
      (case kv_key ''BARS'' line of Some r \<Rightarrow> Some r | None \<Rightarrow>
       (case kv_key ''GRID'' line of Some r \<Rightarrow> Some r | None \<Rightarrow>
        (case kv_key ''SWING'' line of Some r \<Rightarrow> Some r | None \<Rightarrow>
           kv_key ''SEED'' line))))"

definition set_header :: "QDSHeader \<Rightarrow> string \<Rightarrow> jstring \<Rightarrow> QDSHeader" where
  "set_header h key val =
     (if key = ''BPM'' then h\<lparr>BPM := parseFloat val\<rparr>
      else if key = ''BARS'' then h\<lparr>BARS := parseInt val\<rparr>
      else if key = ''GRID'' then h\<lparr>GRID := val\<rparr>
      else if key = ''SWING'' then h\<lparr>SWING := parseFloat val\<rparr>
      else if key = ''SEED'' then h\<lparr>SEED := Some (parseInt val)\<rparr>
      else h)"

text \<open>
  \<^verbatim>\<open>line.match(/^([QWERTY])(?:@([^:]+))?\s*:\s*(.+)$/i)\<close>: the instrument (in upper
  case), the modifier string if there is one, and the pattern as written.
\<close>

definition inst_of :: "nat \<Rightarrow> Inst option" where
  "inst_of c =
     (let u = to_upper c in
      if 128 \<le> c then None
      else if u = cu CHR ''Q'' then Some Q
      else if u = cu CHR ''W'' then Some W
      else if u = cu CHR ''E'' then Some E
      else if u = cu CHR ''R'' then Some R
      else if u = cu CHR ''T'' then Some T
      else if u = cu CHR ''Y'' then Some Y
      else None)"

definition trackMatch :: "jstring \<Rightarrow> (Inst \<times> jstring option \<times> jstring) option" where
  "trackMatch line =
     (case line of
        [] \<Rightarrow> None
      | c # r \<Rightarrow>
          (case inst_of c of
             None \<Rightarrow> None
           | Some i \<Rightarrow>
               if r \<noteq> [] \<and> hd r = cu CHR ''@'' then
                 (let ms = takeWhile (\<lambda>x. x \<noteq> cu CHR '':'') (tl r);
                      r1 = dropWhile (\<lambda>x. x \<noteq> cu CHR '':'') (tl r)
                  in if ms = [] \<or> r1 = [] then None
                     else map_option (\<lambda>v. (i, Some ms, v)) (rest_group (tl r1)))
               else
                 (case dropWhile is_space r of
                    [] \<Rightarrow> None
                  | d # r1 \<Rightarrow>
                      if d = cu CHR '':'' then map_option (\<lambda>v. (i, None, v)) (rest_group r1)
                      else None)))"

text \<open>
  The track modifiers: \<^verbatim>\<open>/^\d+\/\d+$/\<close>, \<^verbatim>\<open>/^GRID\s*=\s*(\d+\/\d+)$/i\<close> and
  \<^verbatim>\<open>/^LEN\s*=\s*(\d+)$/i\<close> on each trimmed piece between commas.
\<close>

definition is_fraction :: "jstring \<Rightarrow> bool" where
  "is_fraction p =
     (takeWhile is_digit p \<noteq> [] \<and>
      (case dropWhile is_digit p of
         [] \<Rightarrow> False
       | c # r \<Rightarrow> c = cu CHR ''/'' \<and> r \<noteq> [] \<and> list_all is_digit r))"

definition key_eq :: "string \<Rightarrow> jstring \<Rightarrow> jstring option" where
  "key_eq k p =
     (case strip_prefix_ci (str k) p of
        None \<Rightarrow> None
      | Some r \<Rightarrow>
          (case dropWhile is_space r of
             [] \<Rightarrow> None
           | c # r1 \<Rightarrow> if c = cu CHR ''='' then Some (dropWhile is_space r1) else None))"

definition apply_mod :: "TrackMod \<Rightarrow> jstring \<Rightarrow> TrackMod" where
  "apply_mod m p =
     (let m1 = (if is_fraction p then m\<lparr>grid := Some p\<rparr> else m);
          m2 = (case key_eq ''GRID'' p of
                  Some v \<Rightarrow> if is_fraction v then m1\<lparr>grid := Some v\<rparr> else m1
                | None \<Rightarrow> m1)
      in (case key_eq ''LEN'' p of
            Some v \<Rightarrow> if v \<noteq> [] \<and> list_all is_digit v then m2\<lparr>lenSteps := Some (digits_val v)\<rparr>
                      else m2
          | None \<Rightarrow> m2))"

definition parse_mods :: "jstring option \<Rightarrow> TrackMod" where
  "parse_mods modStr =
     (case modStr of
        None \<Rightarrow> \<lparr>grid = None, lenSteps = None\<rparr>
      | Some ms \<Rightarrow>
          if ms = [] then \<lparr>grid = None, lenSteps = None\<rparr>
          else foldl apply_mod \<lparr>grid = None, lenSteps = None\<rparr>
                 (map trim (split_at (cu CHR '','') ms)))"

text \<open>
  \<^verbatim>\<open>sections[currentSection].lines.push(...)\<close>: a \<^verbatim>\<open>TypeError\<close> when the name is
  no own property, since what the prototype holds under it has no \<^verbatim>\<open>lines\<close>.
\<close>

definition push_line :: "sections \<Rightarrow> jstring \<Rightarrow> TrackLine \<Rightarrow> failure + sections" where
  "push_line secs name l =
     (case get_prop secs name of
        Own sec \<Rightarrow>
          Inr (map (\<lambda>(k, v). if k = name then (k, v\<lparr>lines := lines v @ [l]\<rparr>) else (k, v)) secs)
      | _ \<Rightarrow> Inl TypeError)"

text \<open>The body of \<^verbatim>\<open>for (let raw of lines)\<close>.\<close>

definition parse_line :: "pstate \<Rightarrow> jstring \<Rightarrow> failure + pstate" where
  "parse_line st raw =
     (let line = trim raw in
      if line = [] \<or> hd line = cu CHR ''#'' then Inr st
      else
        (case humanizeMatch line of
           Some ds \<Rightarrow>
             Inr (st\<lparr>p_header := (p_header st)\<lparr>humanizeMs := Some (num_of_nat (digits_val ds))\<rparr>\<rparr>)
         | None \<Rightarrow>
             if is_order_line line then Inr (st\<lparr>p_order := Some (expand_order line)\<rparr>)
             else
               (case secMatch line of
                  Some name \<Rightarrow>
                    Inr (st\<lparr>currentSection := trim name,
                            p_sections :=
                              (case get_prop (p_sections st) (trim name) of
                                 Undefined \<Rightarrow> p_sections st @ [(trim name, \<lparr>lines = []\<rparr>)]
                               | _ \<Rightarrow> p_sections st)\<rparr>)
                | None \<Rightarrow>
                    (case kvMatch line of
                       Some (key, v) \<Rightarrow> Inr (st\<lparr>p_header := set_header (p_header st) key (trim v)\<rparr>)
                     | None \<Rightarrow>
                         (case trackMatch line of
                            Some (i, modStr, pat) \<Rightarrow>
                              (case push_line (p_sections st) (currentSection st)
                                      \<lparr>line_inst = i, mods = parse_mods modStr,
                                       pattern = filter (\<lambda>c. \<not> is_space c) pat\<rparr> of
                                 Inl e \<Rightarrow> Inl e
                               | Inr secs \<Rightarrow> Inr (st\<lparr>p_sections := secs\<rparr>))
                          | None \<Rightarrow> Inr st)))))"

fun parse_loop :: "pstate \<Rightarrow> jstring list \<Rightarrow> failure + pstate" where
  "parse_loop st [] = Inr st"
| "parse_loop st (raw # raws) =
     (case parse_line st raw of Inl e \<Rightarrow> Inl e | Inr st' \<Rightarrow> parse_loop st' raws)"

definition initial_pstate :: pstate where
  "initial_pstate =
     \<lparr>p_header = DEFAULT_HEADER, p_sections = [(str ''Default'', \<lparr>lines = []\<rparr>)],
      currentSection = str ''Default'', p_order = None\<rparr>"

definition parse :: "jstring \<Rightarrow> failure + Parsed" where
  "parse src =
     (case parse_loop initial_pstate (split_lines (replace_tabs src)) of
        Inl e \<Rightarrow> Inl e
      | Inr st \<Rightarrow> Inr \<lparr>header = p_header st, sections = p_sections st, order = p_order st\<rparr>)"

text \<open>
  \<^verbatim>\<open>compileFrom(parser.parse(txt))\<close> of \<^verbatim>\<open>play.ts\<close> with no header override: a
  fresh compiler for the parsed header, and the events of its first \<^verbatim>\<open>compile\<close>.
\<close>

definition compileFrom :: "Parsed \<Rightarrow> rng \<Rightarrow> failure + TimedEvent list" where
  "compileFrom parsed random =
     map_sum id fst (compile (new_QDSCompiler (header parsed) random) (sections parsed) (order parsed))"

definition play_text :: "jstring \<Rightarrow> rng \<Rightarrow> failure + TimedEvent list" where
  "play_text src random =
     (case parse src of Inl e \<Rightarrow> Inl e | Inr parsed \<Rightarrow> compileFrom parsed random)"

subsection \<open>Notions the properties are stated with\<close>



text \<open>Whether the header asks for humanize jitter: \<^verbatim>\<open>this.header.humanizeMs\<close> is truthy.\<close>

definition humanize_on :: "QDSHeader \<Rightarrow> bool" where
  "humanize_on h = (case humanizeMs h of Some hm \<Rightarrow> truthy hm | None \<Rightarrow> False)"




text \<open>The section names of a sequence that name a section of the score.\<close>

definition played :: "sections \<Rightarrow> jstring list \<Rightarrow> jstring list" where
  "played secs names = filter (\<lambda>n. map_of secs n \<noteq> None) names"

text \<open>
  One pass over the cells of a pattern, each cell once and in order: cell \<open>idx\<close> is
  rendered at bar \<open>idx div k\<close> and step \<open>idx mod k\<close> of a track with \<open>k\<close> steps per bar.
\<close>

fun cell_loop ::
  "QDSHeader \<Rightarrow> num \<Rightarrow> Inst \<Rightarrow> nat \<Rightarrow> num \<Rightarrow> jstring option list \<Rightarrow> nat list \<Rightarrow> rng
     \<Rightarrow> TimedEvent list \<times> rng" where
  "cell_loop h tCursor i k sms cells [] g = ([], g)"
| "cell_loop h tCursor i k sms cells (idx # idxs) g =
     (case array_get cells (num_of_nat idx) of
        None \<Rightarrow> cell_loop h tCursor i k sms cells idxs g
      | Some cell \<Rightarrow>
          if cell = [] then cell_loop h tCursor i k sms cells idxs g
          else
            (case hits_loop h tCursor (idx div k) (idx mod k) (num_of_nat k) sms
                    (swingOffsetMs (idx mod k) sms (SWING h)) g (expandCell i (Some cell)) of
               (es, g1) \<Rightarrow>
                 (case cell_loop h tCursor i k sms cells idxs g1 of
                    (es', g2) \<Rightarrow> (es @ es', g2))))"

text \<open>
  A raw line the parser drops: blank, a comment, or one that none of the five forms
  matches.
\<close>

definition dropped :: "jstring \<Rightarrow> bool" where
  "dropped raw =
     (let line = trim raw in
      line = [] \<or> hd line = cu CHR ''#'' \<or>
      (humanizeMatch line = None \<and> \<not> is_order_line line \<and> secMatch line = None \<and>
       kvMatch line = None \<and> trackMatch line = None))"



text \<open>An event whose velocity is a MIDI velocity.\<close>

definition vel_ok :: "TimedEvent \<Rightarrow> bool" where
  "vel_ok e = (0 \<le> ev_velocity e \<and> ev_velocity e \<le> 127)"

text \<open>A track line with no modifier, and a header with a tempo and a seed, for examples.\<close>

definition plain_track :: "Inst \<Rightarrow> string \<Rightarrow> TrackLine" where
  "plain_track i p = \<lparr>line_inst = i, mods = \<lparr>grid = None, lenSteps = None\<rparr>, pattern = str p\<rparr>"

definition seeded_header :: "rat \<Rightarrow> rat \<Rightarrow> QDSHeader" where
  "seeded_header bpm seed = DEFAULT_HEADER\<lparr>BPM := Fin bpm, SEED := Some (Fin seed)\<rparr>"

text \<open>The state of a seeded generator; \<open>None\<close> for \<^verbatim>\<open>Math.random\<close>.\<close>

fun mulberry_state :: "rng \<Rightarrow> 32 word option" where
  "mulberry_state (Mulberry a) = Some a"
| "mulberry_state (MathRandom f n) = None"

text \<open>What one section occurrence adds to the cursor.\<close>

definition secLenMs :: "QDSHeader \<Rightarrow> num" where
  "secLenMs h = num_mul (BARS h) (barMs (GRID h) (BPM h))"


text \<open>A line that ended at a \<^verbatim>\<open>\n\<close> loses the \<^verbatim>\<open>\r\<close> before it, if there is one.\<close>

definition strip_cr :: "jstring \<Rightarrow> jstring" where
  "strip_cr l = (if l \<noteq> [] \<and> last l = 13 then butlast l else l)"


text \<open>
  An example text at 60 BPM with an \<^verbatim>\<open>ORDER\<close> line whose one entry has no count, a
  section \<^verbatim>\<open>B\<close> and, after it, a section \<^verbatim>\<open>1\<close>.
\<close>

definition numbered_section_text :: jstring where
  "numbered_section_text =
     str ''BPM: 60'' @ [10] @ str ''ORDER: intro'' @ [10] @ str ''[B]'' @ [10] @ str ''Q: x'' @ [10]
       @ str ''[1]'' @ [10] @ str ''W: x''"




section \<open>Properties\<close>

subsection \<open>Cell expansion\<close>

lemma roll_loop_map:
  "roll_loop i v p m n k =
     map (\<lambda>j. \<lparr>inst = i, velocity = v, prob = p,
                microStepsShift = m + math_round (of_nat (j * 4) / of_nat (max 1 n)),
                rolls = n\<rparr>) [k..<n]"
proof (induction i v p m n k rule: roll_loop.induct)
  case (1 i v p m n k)
  show ?case
  proof (cases "k < n")
    case True
    with 1 show ?thesis
      by (subst roll_loop.simps) (simp add: upt_conv_Cons)
  next
    case False
    then show ?thesis by (subst roll_loop.simps) simp
  qed
qed







subsection \<open>Velocity and probability bounds\<close>

lemma DEFAULT_VEL_range: "0 \<le> DEFAULT_VEL k \<and> DEFAULT_VEL k \<le> 127"
  by (simp add: DEFAULT_VEL_def)

lemma expandCell_bounds:
  assumes "tok \<in> set (expandCell i cell)"
  shows "0 \<le> velocity tok \<and> velocity tok \<le> 127 \<and> 0 \<le> prob tok \<and> prob tok \<le> 100"
proof (cases cell)
  case None
  with assms show ?thesis by (simp add: expandCell_def)
next
  case (Some c)
  show ?thesis
  proof (cases "cell_head c")
    case None
    with assms Some show ?thesis by (simp add: expandCell_def)
  next
    case (Some head)
    define vel0 where
      "vel0 = (if hd head = cu CHR ''r'' then DEFAULT_VEL (cu CHR ''x'') else DEFAULT_VEL (hd head))"
    define ms where "ms = drop (length head) c"
    define p where
      "p = (if ms = [] then 100
            else (case first_match prob_at ms of
                    Some x \<Rightarrow> max 0 (min 100 (int x)) | None \<Rightarrow> (100::int)))"
    define v where
      "v = (if ms = [] then vel0
            else (case first_match vel_at ms of
                    Some x \<Rightarrow> max 0 (min 127 (int x)) | None \<Rightarrow> vel0))"
    have v0: "0 \<le> vel0 \<and> vel0 \<le> 127"
      using DEFAULT_VEL_range by (simp add: vel0_def)
    have pr: "0 \<le> p \<and> p \<le> 100"
      by (simp add: p_def split: option.splits)
    have vr: "0 \<le> v \<and> v \<le> 127"
      using v0 by (simp add: v_def split: option.splits)
    have "velocity tok = v \<and> prob tok = p"
      using assms \<open>cell = Some c\<close> Some
      by (auto simp: expandCell_def Let_def roll_loop_map vel0_def ms_def p_def v_def
               split: if_splits option.splits)
    with pr vr show ?thesis by simp
  qed
qed

lemma emit_hit_velocity:
  assumes "emit_hit h cur bar s spb sms sw g tok = (Some e, g')"
  shows "ev_velocity e = velocity tok"
  using assms
  by (auto simp: emit_hit_def Let_def split: prod.splits if_splits option.splits)

lemma hits_loop_velocity:
  assumes "hits_loop h cur bar s spb sms sw g toks = (es, g')"
    and "\<forall>tok \<in> set toks. 0 \<le> velocity tok \<and> velocity tok \<le> 127"
  shows "\<forall>e \<in> set es. vel_ok e"
  using assms
proof (induction toks arbitrary: g es g')
  case Nil
  then show ?case by simp
next
  case (Cons tok toks)
  obtain e g1 where e: "emit_hit h cur bar s spb sms sw g tok = (e, g1)"
    by (cases "emit_hit h cur bar s spb sms sw g tok")
  obtain es1 g2 where r: "hits_loop h cur bar s spb sms sw g1 toks = (es1, g2)"
    by (cases "hits_loop h cur bar s spb sms sw g1 toks")
  have ih: "\<forall>e \<in> set es1. vel_ok e"
    using Cons.IH [OF r] Cons.prems(2) by simp
  have es: "es = (case e of None \<Rightarrow> es1 | Some x \<Rightarrow> x # es1)"
    using Cons.prems(1) e r by simp
  show ?case
  proof (cases e)
    case None
    with es ih show ?thesis by simp
  next
    case (Some x)
    with e have "ev_velocity x = velocity tok" by (simp add: emit_hit_velocity)
    with Cons.prems(2) have "vel_ok x" by (simp add: vel_ok_def)
    with es ih Some show ?thesis by simp
  qed
qed

lemma step_loop_velocity:
  assumes "step_loop h cur i spb sms cells bar ss g = (es, g')"
  shows "\<forall>e \<in> set es. vel_ok e"
  using assms
proof (induction ss arbitrary: g es g')
  case Nil
  then show ?case by simp
next
  case (Cons s ss)
  let ?idx = "num_add (num_mul (num_of_nat bar) spb) (num_of_nat s)"
  show ?case
  proof (cases "num_le (num_of_nat (length cells)) ?idx")
    case True
    with Cons.prems show ?thesis by simp
  next
    case False
    show ?thesis
    proof (cases "array_get cells ?idx")
      case None
      with False Cons show ?thesis by simp
    next
      case (Some cell)
      show ?thesis
      proof (cases "cell = []")
        case True
        with False Some Cons show ?thesis by simp
      next
        case ne: False
        obtain es1 g1 where a:
          "hits_loop h cur bar s spb sms (swingOffsetMs s sms (SWING h)) g (expandCell i (Some cell))
             = (es1, g1)"
          by (cases "hits_loop h cur bar s spb sms (swingOffsetMs s sms (SWING h)) g
                       (expandCell i (Some cell))")
        obtain es2 g2 where b: "step_loop h cur i spb sms cells bar ss g1 = (es2, g2)"
          by (cases "step_loop h cur i spb sms cells bar ss g1")
        have "es = es1 @ es2"
          using Cons.prems False Some ne a b by (simp add: Let_def)
        moreover have "\<forall>e \<in> set es1. vel_ok e"
          using hits_loop_velocity [OF a] expandCell_bounds by blast
        moreover have "\<forall>e \<in> set es2. vel_ok e"
          using Cons.IH [OF b] .
        ultimately show ?thesis by auto
      qed
    qed
  qed
qed

lemma bar_steps_velocity:
  assumes "bar_steps h cur i spb sms cells bar g = Inr (es, g')"
  shows "\<forall>e \<in> set es. vel_ok e"
proof (cases "loop_count spb")
  case None
  with assms show ?thesis by (auto simp: bar_steps_def split: if_splits)
next
  case (Some n)
  with assms have "step_loop h cur i spb sms cells bar [0..<n] g = (es, g')"
    by (simp add: bar_steps_def)
  then show ?thesis by (rule step_loop_velocity)
qed

lemma bar_loop_velocity:
  assumes "bar_loop h cur i spb sms cells bars g = Inr (es, g')"
  shows "\<forall>e \<in> set es. vel_ok e"
  using assms
proof (induction bars arbitrary: g es g')
  case Nil
  then show ?case by simp
next
  case (Cons bar bars)
  from Cons.prems obtain es1 g1 es2 g2 where
    a: "bar_steps h cur i spb sms cells bar g = Inr (es1, g1)" and
    b: "bar_loop h cur i spb sms cells bars g1 = Inr (es2, g2)" and
    c: "es = es1 @ es2"
    by (auto split: sum.splits prod.splits)
  from bar_steps_velocity [OF a] Cons.IH [OF b] c show ?case by auto
qed

lemma render_line_velocity:
  assumes "render_line h cur g line = Inr (es, g')"
  shows "\<forall>e \<in> set es. vel_ok e"
  using assms
  by (auto simp: render_line_def Let_def split: option.splits dest: bar_loop_velocity)

lemma lines_loop_velocity:
  assumes "lines_loop h cur ls g = Inr (es, g')"
  shows "\<forall>e \<in> set es. vel_ok e"
  using assms
proof (induction ls arbitrary: g es g')
  case Nil
  then show ?case by simp
next
  case (Cons l ls)
  from Cons.prems obtain es1 g1 es2 g2 where
    a: "render_line h cur g l = Inr (es1, g1)" and
    b: "lines_loop h cur ls g1 = Inr (es2, g2)" and
    c: "es = es1 @ es2"
    by (auto split: sum.splits prod.splits)
  from render_line_velocity [OF a] Cons.IH [OF b] c show ?case by auto
qed

lemma set_insert_event: "set (insert_event e xs) = insert e (set xs)"
  by (induction xs) auto

lemma set_sort_events: "set (sort_events es) = set es"
  by (induction es) (simp_all add: sort_events_def set_insert_event)

lemma play_section_velocity:
  assumes "play_section h cur g sec = Inr (es, cur', g')"
  shows "\<forall>e \<in> set es. vel_ok e"
  using assms
  by (auto simp: play_section_def Let_def set_sort_events split: sum.splits
           dest: lines_loop_velocity)

lemma section_loop_velocity:
  assumes "section_loop h secs names evs cur g = Inr (es, cur', g')"
    and "\<forall>e \<in> set evs. vel_ok e"
  shows "\<forall>e \<in> set es. vel_ok e"
  using assms
proof (induction names arbitrary: evs cur g)
  case Nil
  then show ?case by simp
next
  case (Cons n names)
  show ?case
  proof (cases "get_prop secs n")
    case (Own sec)
    with Cons.prems(1) obtain b cur1 g1 where
      a: "play_section h cur g sec = Inr (b, cur1, g1)" and
      r: "section_loop h secs names (evs @ b) cur1 g1 = Inr (es, cur', g')"
      by (auto split: sum.splits prod.splits)
    have "\<forall>e \<in> set (evs @ b). vel_ok e"
      using play_section_velocity [OF a] Cons.prems(2) by auto
    from Cons.IH [OF r this] show ?thesis .
  next
    case Inherited
    with Cons.prems(1) show ?thesis by simp
  next
    case Undefined
    with Cons show ?thesis by simp
  qed
qed

lemma normalize_velocity:
  "(\<forall>e \<in> set (normalize es). vel_ok e) = (\<forall>e \<in> set es. vel_ok e)"
  by (auto simp: normalize_def Let_def vel_ok_def)

lemma compile_velocity:
  assumes "compile c secs ord = Inr (es, c')"
  shows "\<forall>e \<in> set es. vel_ok e"
proof -
  from assms obtain evs cur g where
    a: "section_loop (c_header c) secs (seqSections secs ord) [] (Fin 0) (c_rng c)
          = Inr (evs, cur, g)" and
    b: "es = normalize evs"
    by (auto simp: compile_def split: sum.splits prod.splits)
  have "\<forall>e \<in> set evs. vel_ok e"
    using section_loop_velocity [OF a] by simp
  with b show ?thesis by (simp add: normalize_velocity)
qed

text \<open>
  C7. Every hit token of every cell has a velocity in \<open>[0, 127]\<close> and a probability in
  \<open>[0, 100]\<close>, whatever number a \<^verbatim>\<open>{vel=...}\<close> or \<^verbatim>\<open>[p=...]\<close> modifier holds, and so
  has the velocity of every event a compile returns.
\<close>

theorem velocity_prob_range:
  "(\<forall>tok \<in> set (expandCell i cell).
      0 \<le> velocity tok \<and> velocity tok \<le> 127 \<and> 0 \<le> prob tok \<and> prob tok \<le> 100) \<and>
   (\<forall>es c'. compile c secs ord = Inr (es, c') \<longrightarrow>
      (\<forall>e \<in> set es. 0 \<le> ev_velocity e \<and> ev_velocity e \<le> 127))"
proof
  show "\<forall>tok \<in> set (expandCell i cell).
      0 \<le> velocity tok \<and> velocity tok \<le> 127 \<and> 0 \<le> prob tok \<and> prob tok \<le> 100"
    using expandCell_bounds by blast
  show "\<forall>es c'. compile c secs ord = Inr (es, c') \<longrightarrow>
      (\<forall>e \<in> set es. 0 \<le> ev_velocity e \<and> ev_velocity e \<le> 127)"
    using compile_velocity [of c secs ord] by (simp add: vel_ok_def)
qed

theorem velocity_prob_range_witness:
  "expandCell Q (Some (str ''x{vel=999}[p=777]'')) =
     [\<lparr>inst = Q, velocity = 127, prob = 100, microStepsShift = 0, rolls = 0\<rparr>] \<and>
   map_sum id fst
     (compile (new_QDSCompiler (seeded_header 60 7) (Mulberry 0))
        [(str ''Default'', \<lparr>lines = [plain_track W ''X{vel=300}'']\<rparr>)] None) =
     Inr [\<lparr>ev_t = Fin 0, ev_inst = W, ev_velocity = 127\<rparr>] \<and>
   (0::int) \<le> 127 \<and> (127::int) \<le> 127 \<and> (0::int) \<le> 100 \<and> (100::int) \<le> 100"
proof -
  let ?c = "new_QDSCompiler (seeded_header 60 7) (Mulberry 0)"
  let ?secs = "[(str ''Default'', \<lparr>lines = [plain_track W ''X{vel=300}'']\<rparr>)]"
  let ?cell = "Some (str ''x{vel=999}[p=777]'')"
  let ?tok = "\<lparr>inst = Q, velocity = 127, prob = 100, microStepsShift = 0, rolls = 0\<rparr>"
  let ?e = "\<lparr>ev_t = Fin 0, ev_inst = W, ev_velocity = 127\<rparr>"
  have a: "expandCell Q ?cell = [?tok]" by code_simp
  have b: "map_sum id fst (compile ?c ?secs None) = Inr [?e]" by code_simp
  then obtain c' where b': "compile ?c ?secs None = Inr ([?e], c')"
    by (cases "compile ?c ?secs None") auto
  have "0 \<le> velocity ?tok \<and> velocity ?tok \<le> 127 \<and> 0 \<le> prob ?tok \<and> prob ?tok \<le> 100"
    using velocity_prob_range [of Q ?cell ?c ?secs None] a by simp
  moreover have "0 \<le> ev_velocity ?e \<and> ev_velocity ?e \<le> 127"
    using velocity_prob_range [of Q ?cell ?c ?secs None] b' by simp
  ultimately show ?thesis using a b by simp
qed

subsection \<open>The probability gate\<close>

text \<open>
  C4, as the code has it. A hit token with a probability below 100 takes exactly one
  generator value for its gate and survives if and only if that value times 100 is at most
  the probability; a token with probability 100 or more survives with no value drawn for
  the gate. A survivor takes one more value when the header asks for humanize jitter.
\<close>

theorem probability_gate:
  "(prob tok < 100 \<longrightarrow>
      ((fst (emit_hit h cur bar s spb sms sw g tok) \<noteq> None) =
         (fst (draw g) * 100 \<le> of_int (prob tok))) \<and>
      snd (emit_hit h cur bar s spb sms sw g tok) =
        (if fst (draw g) * 100 \<le> of_int (prob tok) \<and> humanize_on h
         then snd (draw (snd (draw g))) else snd (draw g))) \<and>
   (100 \<le> prob tok \<longrightarrow>
      fst (emit_hit h cur bar s spb sms sw g tok) \<noteq> None \<and>
      snd (emit_hit h cur bar s spb sms sw g tok) =
        (if humanize_on h then snd (draw g) else g))"
  by (auto simp: emit_hit_def humanize_on_def Let_def not_less
           split: prod.splits option.splits)

text \<open>
  The claim as the specification states it (one value drawn for every token) fails for a
  plain \<^verbatim>\<open>x\<close>: its token has probability 100, it yields its event, and the generator
  stays where it was, while one draw would have moved it.
\<close>

theorem probability_gate_counterexample:
  "expandCell Q (Some (str ''x'')) =
     [\<lparr>inst = Q, velocity = 96, prob = 100, microStepsShift = 0, rolls = 0\<rparr>] \<and>
   fst (emit_hit DEFAULT_HEADER (Fin 0) 0 0 (Fin 16) (Fin 250) (Fin 0) (Mulberry 1)
          \<lparr>inst = Q, velocity = 96, prob = 100, microStepsShift = 0, rolls = 0\<rparr>) =
     Some \<lparr>ev_t = Fin 0, ev_inst = Q, ev_velocity = 96\<rparr> \<and>
   mulberry_state (snd (emit_hit DEFAULT_HEADER (Fin 0) 0 0 (Fin 16) (Fin 250) (Fin 0) (Mulberry 1)
          \<lparr>inst = Q, velocity = 96, prob = 100, microStepsShift = 0, rolls = 0\<rparr>)) = Some 1 \<and>
   mulberry_state (snd (draw (Mulberry 1))) = Some 1831565814"
  by code_simp

theorem probability_gate_witness:
  "prob \<lparr>inst = Q, velocity = 96, prob = 50, microStepsShift = 0, rolls = 0\<rparr> < 100 \<and>
   \<not> fst (draw (Mulberry 1)) * 100 \<le> 50 \<and>
   fst (emit_hit DEFAULT_HEADER (Fin 0) 0 0 (Fin 16) (Fin 250) (Fin 0) (Mulberry 1)
          \<lparr>inst = Q, velocity = 96, prob = 50, microStepsShift = 0, rolls = 0\<rparr>) = None \<and>
   mulberry_state (snd (emit_hit DEFAULT_HEADER (Fin 0) 0 0 (Fin 16) (Fin 250) (Fin 0) (Mulberry 1)
          \<lparr>inst = Q, velocity = 96, prob = 50, microStepsShift = 0, rolls = 0\<rparr>)) =
     mulberry_state (snd (draw (Mulberry 1)))"
proof -
  let ?tok = "\<lparr>inst = Q, velocity = 96, prob = 50, microStepsShift = 0, rolls = 0\<rparr>"
  have p: "prob ?tok < 100" by simp
  have d: "\<not> fst (draw (Mulberry 1)) * 100 \<le> 50" by code_simp
  from probability_gate [of ?tok DEFAULT_HEADER "Fin 0" 0 0 "Fin 16" "Fin 250" "Fin 0" "Mulberry 1"]
       p d
  show ?thesis by simp
qed

subsection \<open>The time cursor\<close>

lemma get_prop_Own: "(get_prop secs n = Own sec) = (map_of secs n = Some sec)"
  by (simp add: get_prop_def split: option.splits)

lemma get_prop_not_Own: "map_of secs n = None \<Longrightarrow> get_prop secs n \<noteq> Own sec"
  by (simp add: get_prop_def split: option.splits)

lemma play_section_cursor:
  assumes "play_section h cur g sec = Inr (es, cur', g')"
  shows "cur' = num_add cur (secLenMs h)"
  using assms by (auto simp: play_section_def secLenMs_def Let_def split: sum.splits)

lemma section_loop_cursor:
  assumes "section_loop h secs names evs cur g = Inr (evs', cur', g')"
  shows "cur' = ((\<lambda>t. num_add t (secLenMs h)) ^^ length (played secs names)) cur"
  using assms
proof (induction names arbitrary: evs cur g)
  case Nil
  then show ?case by (simp add: played_def)
next
  case (Cons n names)
  show ?case
  proof (cases "get_prop secs n")
    case (Own sec)
    with Cons.prems obtain b cur1 g1 where
      a: "play_section h cur g sec = Inr (b, cur1, g1)" and
      r: "section_loop h secs names (evs @ b) cur1 g1 = Inr (evs', cur', g')"
      by (auto split: sum.splits prod.splits)
    have c1: "cur1 = num_add cur (secLenMs h)" using a by (rule play_section_cursor)
    have m: "map_of secs n = Some sec" using Own by (simp add: get_prop_Own)
    define f where "f = (\<lambda>t. num_add t (secLenMs h))"
    have sw: "(f ^^ k) (f x) = f ((f ^^ k) x)" for k x
      by (simp add: funpow_swap1)
    have "cur' = (f ^^ length (played secs names)) (f cur)"
      using Cons.IH [OF r] c1 by (simp add: f_def)
    then have "cur' = (f ^^ Suc (length (played secs names))) cur"
      by (simp add: sw)
    moreover have "played secs (n # names) = n # played secs names"
      using m by (simp add: played_def)
    ultimately show ?thesis by (simp add: f_def)
  next
    case Inherited
    with Cons.prems show ?thesis by simp
  next
    case Undefined
    then have "map_of secs n = None"
      by (simp add: get_prop_def split: option.splits)
    with Cons Undefined show ?thesis by (simp add: played_def)
  qed
qed

text \<open>
  C5. Every section occurrence that is processed moves the cursor on by exactly
  \<^verbatim>\<open>BARS * barMs(GRID, BPM)\<close> of the header, whatever the tracks of the section are and
  however many bars they rendered; after the loop the cursor has moved once for every name
  of the sequence that names a section.
\<close>

theorem cursor_advance:
  "(\<forall>es cur' g'. play_section h cur g sec = Inr (es, cur', g') \<longrightarrow>
      cur' = num_add cur (num_mul (BARS h) (barMs (GRID h) (BPM h)))) \<and>
   (\<forall>evs' cur' g'. section_loop h secs names evs cur g = Inr (evs', cur', g') \<longrightarrow>
      cur' = ((\<lambda>t. num_add t (num_mul (BARS h) (barMs (GRID h) (BPM h))))
                ^^ length (played secs names)) cur)"
  using play_section_cursor [of h cur g sec] section_loop_cursor [of h secs names evs cur g]
  by (simp add: secLenMs_def)

theorem cursor_advance_witness:
  "map_sum id (fst \<circ> snd)
     (play_section (seeded_header 120 3) (Fin 500) (Mulberry 3)
        \<lparr>lines = [\<lparr>line_inst = Q, mods = \<lparr>grid = Some (str ''1/32''), lenSteps = Some 3\<rparr>,
                   pattern = str ''xxxxxxx.xx''\<rparr>]\<rparr>) =
     Inr (Fin 2500) \<and>
   num_add (Fin 500)
     (num_mul (BARS (seeded_header 120 3))
        (barMs (GRID (seeded_header 120 3)) (BPM (seeded_header 120 3)))) = Fin 2500 \<and>
   map_sum id (fst \<circ> snd)
     (section_loop (seeded_header 120 3)
        [(str ''Default'', \<lparr>lines = []\<rparr>),
         (str ''A'', \<lparr>lines = [\<lparr>line_inst = Q,
                                mods = \<lparr>grid = Some (str ''1/32''), lenSteps = Some 3\<rparr>,
                                pattern = str ''xxxxxxx.xx''\<rparr>]\<rparr>)]
        [str ''A'', str ''Nope'', str ''A''] [] (Fin 0) (Mulberry 3)) =
     Inr (Fin 4000) \<and>
   ((\<lambda>t. num_add t (num_mul (BARS (seeded_header 120 3))
                        (barMs (GRID (seeded_header 120 3)) (BPM (seeded_header 120 3)))))
      ^^ length (played
                  [(str ''Default'', \<lparr>lines = []\<rparr>),
                   (str ''A'', \<lparr>lines = [\<lparr>line_inst = Q,
                                mods = \<lparr>grid = Some (str ''1/32''), lenSteps = Some 3\<rparr>,
                                pattern = str ''xxxxxxx.xx''\<rparr>]\<rparr>)]
                  [str ''A'', str ''Nope'', str ''A''])) (Fin 0) = Fin 4000"
proof -
  let ?h = "seeded_header 120 3"
  let ?sec = "\<lparr>lines = [\<lparr>line_inst = Q, mods = \<lparr>grid = Some (str ''1/32''), lenSteps = Some 3\<rparr>,
                   pattern = str ''xxxxxxx.xx''\<rparr>]\<rparr>"
  let ?secs = "[(str ''Default'', \<lparr>lines = []\<rparr>), (str ''A'', ?sec)]"
  let ?names = "[str ''A'', str ''Nope'', str ''A'']"
  let ?len = "num_mul (BARS ?h) (barMs (GRID ?h) (BPM ?h))"
  have a: "map_sum id (fst \<circ> snd) (play_section ?h (Fin 500) (Mulberry 3) ?sec) = Inr (Fin 2500)"
    by code_simp
  then obtain es g' where a': "play_section ?h (Fin 500) (Mulberry 3) ?sec = Inr (es, Fin 2500, g')"
    by (cases "play_section ?h (Fin 500) (Mulberry 3) ?sec") auto
  have b: "map_sum id (fst \<circ> snd) (section_loop ?h ?secs ?names [] (Fin 0) (Mulberry 3))
             = Inr (Fin 4000)"
    by code_simp
  then obtain evs' g'' where
    b': "section_loop ?h ?secs ?names [] (Fin 0) (Mulberry 3) = Inr (evs', Fin 4000, g'')"
    by (cases "section_loop ?h ?secs ?names [] (Fin 0) (Mulberry 3)") auto
  have c: "Fin 2500 = num_add (Fin 500) ?len"
    using cursor_advance [where h = ?h and cur = "Fin 500" and g = "Mulberry 3" and sec = ?sec] a'
    by blast
  have d: "Fin 4000 = ((\<lambda>t. num_add t ?len) ^^ length (played ?secs ?names)) (Fin 0)"
    using cursor_advance [where h = ?h and cur = "Fin 0" and g = "Mulberry 3" and secs = ?secs
          and names = ?names and evs = "[]"] b'
    by blast
  show ?thesis using a b c d by simp
qed

subsection \<open>Determinism\<close>

text \<open>
  C3, as the code has it. With a seed in the header the constructor installs the seeded
  generator, so a compile on a freshly constructed compiler does not depend on
  \<^verbatim>\<open>Math.random\<close>: two fresh compilers for one header give the same result for the
  same sections and order, events and generator position alike.
\<close>

theorem seeded_compile_deterministic:
  "SEED h = Some seed \<longrightarrow>
     compile (new_QDSCompiler h random1) secs ord = compile (new_QDSCompiler h random2) secs ord \<and>
     (header parsed = h \<longrightarrow> compileFrom parsed random1 = compileFrom parsed random2)"
  by (simp add: new_QDSCompiler_def compileFrom_def)

theorem seeded_compile_deterministic_witness:
  "SEED (seeded_header 60 1) = Some (Fin 1) \<and>
   compile (new_QDSCompiler (seeded_header 60 1) (MathRandom (\<lambda>n. 0) 0))
     [(str ''Default'', \<lparr>lines = [plain_track Q ''x[p=50]'']\<rparr>)] None =
   compile (new_QDSCompiler (seeded_header 60 1) (MathRandom (\<lambda>n. 1 / 2) 5))
     [(str ''Default'', \<lparr>lines = [plain_track Q ''x[p=50]'']\<rparr>)] None"
proof -
  have s: "SEED (seeded_header 60 1) = Some (Fin 1)"
    by (simp add: seeded_header_def)
  from seeded_compile_deterministic [of "seeded_header 60 1" "Fin 1"] s show ?thesis by simp
qed

text \<open>
  The generator belongs to the compiler instance, not to one call of \<^verbatim>\<open>compile\<close>: a
  second call on the same instance goes on from where the first one stopped. With seed 1
  the one hit of \<^verbatim>\<open>x[p=50]\<close> fails its gate in the first call and passes it in the
  second, so the two calls, of the same header, sections and order, differ.
\<close>

theorem compile_twice_counterexample:
  "(case compile (new_QDSCompiler (seeded_header 60 1) (Mulberry 0))
           [(str ''Default'', \<lparr>lines = [plain_track Q ''x[p=50]'']\<rparr>)] None of
      Inl e \<Rightarrow> False
    | Inr (es1, c1) \<Rightarrow>
        es1 = [] \<and>
        map_sum id fst
          (compile c1 [(str ''Default'', \<lparr>lines = [plain_track Q ''x[p=50]'']\<rparr>)] None) =
          Inr [\<lparr>ev_t = Fin 0, ev_inst = Q, ev_velocity = 96\<rparr>])"
  by code_simp

subsection \<open>Bars and cells of a track line\<close>

lemma num_idx:
  "num_add (num_mul (num_of_nat bar) (num_of_nat k)) (num_of_nat s) = num_of_nat (bar * k + s)"
  by (simp add: num_of_nat_def)

lemma num_le_of_nat: "num_le (num_of_nat a) (num_of_nat b) = (a \<le> b)"
  by (auto simp: num_le_def num_of_nat_def)

lemma array_get_of_nat:
  "array_get cells (num_of_nat n) = (if n < length cells then cells ! n else None)"
  by (simp add: array_get_def num_of_nat_def)

lemma loop_count_of_nat: "loop_count (num_of_nat k) = Some k"
  by (simp add: num_of_nat_def)

lemma cell_loop_append:
  "cell_loop h cur i k sms cells (xs @ ys) g =
     (case cell_loop h cur i k sms cells xs g of
        (es, g1) \<Rightarrow>
          (case cell_loop h cur i k sms cells ys g1 of (es', g2) \<Rightarrow> (es @ es', g2)))"
proof (induction xs arbitrary: g)
  case Nil
  then show ?case by (simp split: prod.splits)
next
  case (Cons x xs)
  then show ?case by (simp split: prod.splits option.splits)
qed

lemma step_loop_cells:
  assumes "0 < k" "s0 \<le> k"
  shows "step_loop h cur i (num_of_nat k) sms cells bar [s0..<k] g =
           cell_loop h cur i k sms cells [bar * k + s0..<min (bar * k + k) (length cells)] g"
  using assms(2)
proof (induction "k - s0" arbitrary: s0 g)
  case 0
  then have "s0 = k" by simp
  then show ?case by simp
next
  case (Suc d)
  then have lt: "s0 < k" by simp
  let ?idx = "bar * k + s0"
  have up: "[s0..<k] = s0 # [Suc s0..<k]" using lt by (simp add: upt_conv_Cons)
  show ?case
  proof (cases "length cells \<le> ?idx")
    case True
    then show ?thesis by (simp add: up num_idx num_le_of_nat)
  next
    case False
    then have il: "?idx < length cells" by simp
    have lo: "?idx < min (bar * k + k) (length cells)" using lt il by simp
    have ur: "[?idx..<min (bar * k + k) (length cells)] =
                ?idx # [bar * k + Suc s0..<min (bar * k + k) (length cells)]"
      using lo by (simp add: upt_conv_Cons)
    have dm: "?idx div k = bar" "?idx mod k = s0" using lt by simp_all
    have ih: "step_loop h cur i (num_of_nat k) sms cells bar [Suc s0..<k] g' =
                cell_loop h cur i k sms cells [bar * k + Suc s0..<min (bar * k + k) (length cells)] g'"
      for g'
      using Suc.hyps(1) [of "Suc s0" g'] Suc.hyps(2) lt by simp
    show ?thesis
      unfolding up ur
      using lt False
      by (simp add: num_idx num_le_of_nat array_get_of_nat il ih Let_def
               split: option.splits prod.splits)
  qed
qed

lemma bar_steps_cells:
  assumes "0 < k"
  shows "bar_steps h cur i (num_of_nat k) sms cells bar g =
           Inr (cell_loop h cur i k sms cells [bar * k..<min (bar * k + k) (length cells)] g)"
  using step_loop_cells [OF assms, of 0 h cur i sms cells bar g]
  by (simp add: bar_steps_def loop_count_of_nat)

lemma upt_split: "a \<le> b \<Longrightarrow> b \<le> c \<Longrightarrow> [a..<b] @ [b..<c] = [a..<c]"
  by (metis le_Suc_ex upt_add_eq_append)

lemma upt_chunk:
  assumes "0 < (k::nat)" "b0 < nb"
  shows "[b0 * k..<min (b0 * k + k) n] @ [Suc b0 * k..<min (nb * k) n] = [b0 * k..<min (nb * k) n]"
proof -
  have le: "Suc b0 * k \<le> nb * k" using assms(2) by (metis Suc_leI mult_le_mono1)
  show ?thesis
  proof (cases "Suc b0 * k \<le> n")
    case True
    have m: "min (b0 * k + k) n = Suc b0 * k" using True by simp
    have e: "[b0 * k..<Suc b0 * k] @ [Suc b0 * k..<min (nb * k) n] = [b0 * k..<min (nb * k) n]"
      by (rule upt_split) (use le True in simp_all)
    show ?thesis unfolding m by (rule e)
  next
    case False
    then have a: "min (b0 * k + k) n = n" by simp
    have b: "min (nb * k) n = n" using le False by simp
    have c: "[Suc b0 * k..<n] = []" using False by simp
    show ?thesis by (simp only: a b c append_Nil2)
  qed
qed

lemma bar_loop_cells:
  assumes "0 < k" "b0 \<le> nb"
  shows "bar_loop h cur i (num_of_nat k) sms cells [b0..<nb] g =
           Inr (cell_loop h cur i k sms cells [b0 * k..<min (nb * k) (length cells)] g)"
  using assms(2)
proof (induction "nb - b0" arbitrary: b0 g)
  case 0
  then have "b0 = nb" by simp
  then show ?case by simp
next
  case (Suc d)
  then have lt: "b0 < nb" by simp
  have up: "[b0..<nb] = b0 # [Suc b0..<nb]" using lt by (simp add: upt_conv_Cons)
  have ih: "bar_loop h cur i (num_of_nat k) sms cells [Suc b0..<nb] g' =
              Inr (cell_loop h cur i k sms cells [Suc b0 * k..<min (nb * k) (length cells)] g')"
    for g'
    using Suc.hyps(1) [of "Suc b0" g'] Suc.hyps(2) lt by simp
  have ch: "[b0 * k..<min (nb * k) (length cells)] =
              [b0 * k..<min (b0 * k + k) (length cells)] @ [Suc b0 * k..<min (nb * k) (length cells)]"
    using upt_chunk [OF assms(1) lt, of "length cells"] by simp
  show ?case
    unfolding up
    by (subst ch) (simp add: bar_steps_cells [OF assms(1)] ih cell_loop_append split: prod.splits)
qed

lemma ceiling_max: "\<lceil>max x y\<rceil> = max \<lceil>x\<rceil> \<lceil>y :: rat\<rceil>"
proof (cases "x \<le> y")
  case True
  then have "\<lceil>x\<rceil> \<le> \<lceil>y\<rceil>" by (rule ceiling_mono)
  with True show ?thesis by (simp add: max_def)
next
  case False
  then have "\<lceil>y\<rceil> \<le> \<lceil>x\<rceil>" by (simp add: ceiling_mono)
  with False show ?thesis by (simp add: max_def)
qed

lemma nat_max: "nat (max a b) = max (nat a) (nat b)"
  by (simp add: max_def)

lemma num_max_Fin: "num_max (Fin x) (Fin y) = Fin (max x y)"
  by (auto simp: num_max_def max_def)

lemma bars_count:
  assumes "0 < k" "BARS h = Fin b"
  shows "loop_count (barsToUse h (num_of_nat k) n) =
           Some (max (max 1 (nat \<lceil>of_nat n / of_nat k :: rat\<rceil>)) (nat \<lceil>b\<rceil>))"
proof -
  define c where "c = \<lceil>of_nat n / of_nat k :: rat\<rceil>"
  have "(0::rat) \<le> of_nat n / of_nat k" by simp
  then have c0: "0 \<le> c" unfolding c_def by (metis ceiling_mono ceiling_zero)
  have d: "num_ceil (num_div (num_of_nat n) (num_of_nat k)) = Fin (of_int c)"
    using assms(1) by (simp add: num_of_nat_def c_def)
  have bl: "(if truthy (Fin (of_int c)) then Fin (of_int c) else Fin 1) = Fin (of_int (max 1 c))"
    using c0 by (auto simp: max_def)
  have "barsToUse h (num_of_nat k) n = Fin (max (of_int (max 1 c)) b)"
    unfolding barsToUse_def Let_def d bl assms(2) by (rule num_max_Fin)
  then have "loop_count (barsToUse h (num_of_nat k) n) = Some (nat \<lceil>max (of_int (max 1 c)) b\<rceil>)"
    by simp
  also have "nat \<lceil>max (rat_of_int (max 1 c)) b\<rceil> = max (nat (max 1 c)) (nat \<lceil>b\<rceil>)"
    by (simp only: ceiling_max nat_max ceiling_of_int)
  also have "nat (max 1 c) = max 1 (nat c)"
    by (simp add: nat_max)
  finally show ?thesis by (simp add: c_def)
qed

lemma render_line_cells:
  assumes "line_stepsPerBar h line = num_of_nat k" "0 < k" "BARS h = Fin b"
  shows "render_line h cur g line =
           Inr (cell_loop h cur (line_inst line) k (stepMs (line_grid h line) (BPM h))
                  (tokenizePattern (pattern line))
                  [0..<length (tokenizePattern (pattern line))] g)"
proof -
  let ?cells = "tokenizePattern (pattern line)"
  let ?n = "length ?cells"
  let ?nb = "max (max 1 (nat \<lceil>of_nat ?n / of_nat k :: rat\<rceil>)) (nat \<lceil>b\<rceil>)"
  have lc: "loop_count (barsToUse h (num_of_nat k) ?n) = Some ?nb"
    using assms(2,3) by (rule bars_count)
  have "(of_nat ?n :: rat) / of_nat k \<le> of_int \<lceil>of_nat ?n / of_nat k :: rat\<rceil>"
    by (rule le_of_int_ceiling)
  also have "\<dots> \<le> of_nat (nat \<lceil>of_nat ?n / of_nat k :: rat\<rceil>)"
    by simp
  also have "\<dots> \<le> of_nat ?nb" by simp
  finally have "(of_nat ?n :: rat) \<le> of_nat ?nb * of_nat k"
    using assms(2) by (simp add: pos_divide_le_eq)
  then have "(of_nat ?n :: rat) \<le> of_nat (?nb * k)" by simp
  then have cover: "?n \<le> ?nb * k" by (simp only: of_nat_le_iff)
  have "render_line h cur g line =
          bar_loop h cur (line_inst line) (num_of_nat k) (stepMs (line_grid h line) (BPM h))
            ?cells [0..<?nb] g"
    by (simp add: render_line_def Let_def assms(1) lc)
  also have "\<dots> = Inr (cell_loop h cur (line_inst line) k (stepMs (line_grid h line) (BPM h))
                         ?cells [0 * k..<min (?nb * k) ?n] g)"
    by (rule bar_loop_cells) (use assms(2) in simp_all)
  also have "min (?nb * k) ?n = ?n" using cover by simp
  finally show ?thesis by simp
qed

text \<open>
  C2, as the code has it. For a track line with \<open>k \<ge> 1\<close> steps per bar under a header
  whose bar count is a finite number, the bar loop runs
  \<open>max (max 1 (ceil (cells / k))) (ceil BARS)\<close> times, and what it renders is one pass over
  the cells of the pattern: every cell once, in order, cell \<open>idx\<close> at bar \<open>idx div k\<close> and
  step \<open>idx mod k\<close>. No cell is cut off, and a step at or behind the end of the pattern
  renders nothing: the pattern is not played again in the bars it does not reach.
\<close>

theorem bars_rendered:
  "line_stepsPerBar h line = num_of_nat k \<and> 0 < k \<and> BARS h = Fin b \<longrightarrow>
     loop_count (barsToUse h (line_stepsPerBar h line) (length (tokenizePattern (pattern line)))) =
       Some (max (max 1 (nat \<lceil>of_nat (length (tokenizePattern (pattern line))) / of_nat k :: rat\<rceil>))
                 (nat \<lceil>b\<rceil>)) \<and>
     render_line h cur g line =
       Inr (cell_loop h cur (line_inst line) k (stepMs (line_grid h line) (BPM h))
              (tokenizePattern (pattern line))
              [0..<length (tokenizePattern (pattern line))] g)"
  using render_line_cells [of h line k b cur g]
        bars_count [of k h b "length (tokenizePattern (pattern line))"]
  by simp

text \<open>
  The claim as the specification states it fails for the one-cell pattern \<^verbatim>\<open>x\<close> under
  \<^verbatim>\<open>BARS: 2\<close> at 60 BPM, where a bar lasts 4000 ms: the compile returns the hit of the
  first bar and nothing in the second.
\<close>

theorem bars_rendered_counterexample:
  "map_sum id fst
     (compile (new_QDSCompiler ((seeded_header 60 1)\<lparr>BARS := Fin 2\<rparr>) (Mulberry 0))
        [(str ''Default'', \<lparr>lines = [plain_track Q ''x'']\<rparr>)] None) =
     Inr [\<lparr>ev_t = Fin 0, ev_inst = Q, ev_velocity = 96\<rparr>] \<and>
   barMs (GRID ((seeded_header 60 1)\<lparr>BARS := Fin 2\<rparr>)) (BPM ((seeded_header 60 1)\<lparr>BARS := Fin 2\<rparr>))
     = Fin 4000"
  by code_simp

theorem bars_rendered_witness:
  "line_stepsPerBar ((seeded_header 60 1)\<lparr>BARS := Fin 2\<rparr>) (plain_track Q ''x.'') = num_of_nat 16 \<and>
   loop_count (barsToUse ((seeded_header 60 1)\<lparr>BARS := Fin 2\<rparr>)
                 (line_stepsPerBar ((seeded_header 60 1)\<lparr>BARS := Fin 2\<rparr>) (plain_track Q ''x.''))
                 (length (tokenizePattern (pattern (plain_track Q ''x.''))))) = Some 2 \<and>
   map_sum id fst
     (render_line ((seeded_header 60 1)\<lparr>BARS := Fin 2\<rparr>) (Fin 0) (Mulberry 1) (plain_track Q ''x.'')) =
     Inr [\<lparr>ev_t = Fin 0, ev_inst = Q, ev_velocity = 96\<rparr>]"
proof -
  let ?h = "(seeded_header 60 1)\<lparr>BARS := Fin 2\<rparr>"
  let ?l = "plain_track Q ''x.''"
  have a: "line_stepsPerBar ?h ?l = num_of_nat 16" by code_simp
  have b: "BARS ?h = Fin 2" by simp
  have n: "length (tokenizePattern (pattern ?l)) = 2" by code_simp
  have c: "max (max 1 (nat \<lceil>of_nat 2 / of_nat 16 :: rat\<rceil>)) (nat \<lceil>2 :: rat\<rceil>) = 2"
    by code_simp
  have d: "map_sum id fst
             (Inr (cell_loop ?h (Fin 0) (line_inst ?l) 16 (stepMs (line_grid ?h ?l) (BPM ?h))
                     (tokenizePattern (pattern ?l)) [0..<2] (Mulberry 1))) =
           (Inr [\<lparr>ev_t = Fin 0, ev_inst = Q, ev_velocity = 96\<rparr>] :: failure + TimedEvent list)"
    by code_simp
  from bars_rendered [of ?h ?l 16 2 "Fin 0" "Mulberry 1"] a b
  have e: "loop_count (barsToUse ?h (line_stepsPerBar ?h ?l) (length (tokenizePattern (pattern ?l)))) =
             Some (max (max 1 (nat \<lceil>of_nat (length (tokenizePattern (pattern ?l))) / of_nat 16 :: rat\<rceil>))
                       (nat \<lceil>2 :: rat\<rceil>))"
    and f: "render_line ?h (Fin 0) (Mulberry 1) ?l =
              Inr (cell_loop ?h (Fin 0) (line_inst ?l) 16 (stepMs (line_grid ?h ?l) (BPM ?h))
                     (tokenizePattern (pattern ?l))
                     [0..<length (tokenizePattern (pattern ?l))] (Mulberry 1))"
    by simp_all
  have e': "loop_count (barsToUse ?h (line_stepsPerBar ?h ?l) (length (tokenizePattern (pattern ?l)))) =
             Some 2"
    using e c unfolding n by simp
  have f': "map_sum id fst (render_line ?h (Fin 0) (Mulberry 1) ?l) =
              Inr [\<lparr>ev_t = Fin 0, ev_inst = Q, ev_velocity = 96\<rparr>]"
    using d unfolding f n .
  show ?thesis using a e' f' by blast
qed

subsection \<open>Order of the returned events\<close>


















subsection \<open>Finite timestamps\<close>































subsection \<open>Lines of a text\<close>

lemma split_at_nonempty: "split_at sep s \<noteq> []"
  by (induction s) (auto split: list.splits)

lemma split_at_Cons:
  "split_at sep (c # cs) =
     (if c = sep then [] # split_at sep cs
      else (c # hd (split_at sep cs)) # tl (split_at sep cs))"
  using split_at_nonempty [of sep cs] by (cases "split_at sep cs") auto

lemma split_at_append:
  "split_at sep (x @ sep # y) = split_at sep x @ split_at sep y"
proof (induction x)
  case Nil
  then show ?case by simp
next
  case (Cons c x)
  show ?case
  proof (cases "c = sep")
    case True
    with Cons show ?thesis by simp
  next
    case False
    obtain l ls where p: "split_at sep x = l # ls"
      using split_at_nonempty [of sep x] by (cases "split_at sep x") auto
    with Cons False show ?thesis by simp
  qed
qed

lemma split_at_no_sep: "sep \<notin> set s \<Longrightarrow> split_at sep s = [s]"
  by (induction s) auto

text \<open>
  \<^verbatim>\<open>split(/\r?\n/)\<close> cuts at every \<^verbatim>\<open>\n\<close> and takes the \<^verbatim>\<open>\r\<close> before it along.
\<close>

lemma split_lines_pieces:
  "split_lines s = map strip_cr (butlast (split_at 10 s)) @ [last (split_at 10 s)]"
proof (induction s rule: split_lines.induct)
  case 1
  then show ?case by simp
next
  case (2 c)
  then show ?case by (simp add: strip_cr_def)
next
  case (3 c d cs)
  obtain l ls where p: "split_at 10 (d # cs) = l # ls"
    using split_at_nonempty [of 10 "d # cs"] by (cases "split_at 10 (d # cs)") auto
  obtain l' ls' where p': "split_at 10 cs = l' # ls'"
    using split_at_nonempty [of 10 cs] by (cases "split_at 10 cs") auto
  show ?case
  proof (cases "c = 10")
    case True
    have "split_at 10 (c # d # cs) = [] # l # ls" using True p by simp
    moreover have "split_lines (c # d # cs) = [] # split_lines (d # cs)" using True by simp
    ultimately show ?thesis using 3(1) [OF True] p by (simp add: strip_cr_def)
  next
    case False
    show ?thesis
    proof (cases "c = 13 \<and> d = 10")
      case True
      then have c: "c = 13" and d: "d = 10" by simp_all
      have sa: "split_at 10 (c # d # cs) = [13] # l' # ls'" using c d p' by simp
      have sl: "split_lines (c # d # cs) = [] # split_lines cs" using c d by simp
      have ih: "split_lines cs = map strip_cr (butlast (l' # ls')) @ [last (l' # ls')]"
        using 3(2) [OF False True] p' by simp
      show ?thesis unfolding sa sl ih by (simp add: strip_cr_def)
    next
      case nocr: False
      have sa: "split_at 10 (c # d # cs) = (c # l) # ls" using False p by simp
      have sl: "split_lines (c # d # cs) = cons_head c (split_lines (d # cs))"
        using False nocr by auto
      have ih: "split_lines (d # cs) = map strip_cr (butlast (l # ls)) @ [last (l # ls)]"
        using 3(3) [OF False nocr] p by simp
      show ?thesis
      proof (cases ls)
        case Nil
        then show ?thesis unfolding sa sl ih by (simp add: cons_head_def)
      next
        case (Cons m ms)
        have "l = [] \<Longrightarrow> d = 10"
          using p by (auto split: if_splits list.splits)
        then have "strip_cr (c # l) = c # strip_cr l"
          using nocr by (auto simp: strip_cr_def)
        then show ?thesis unfolding sa sl ih using Cons by (simp add: cons_head_def)
      qed
    qed
  qed
qed

lemma split_lines_append:
  "split_lines (x @ 10 # y) = map strip_cr (split_at 10 x) @ split_lines y"
proof -
  have ne: "split_at 10 y \<noteq> []" by (rule split_at_nonempty)
  have "split_at 10 (x @ 10 # y) = split_at 10 x @ split_at 10 y"
    by (rule split_at_append)
  then show ?thesis
    using ne by (simp add: split_lines_pieces butlast_append)
qed

lemma replace_tabs_append: "replace_tabs (a @ b) = replace_tabs a @ replace_tabs b"
  by (simp add: replace_tabs_def)

lemma replace_tabs_nl: "replace_tabs (10 # s) = 10 # replace_tabs s"
  by (simp add: replace_tabs_def)

lemma replace_tabs_no_nl: "10 \<notin> set g \<Longrightarrow> 10 \<notin> set (replace_tabs g)"
  by (auto simp: replace_tabs_def split: if_splits)

lemma parse_loop_append:
  "parse_loop st (xs @ ys) =
     (case parse_loop st xs of Inl e \<Rightarrow> Inl e | Inr st' \<Rightarrow> parse_loop st' ys)"
  by (induction xs arbitrary: st) (auto split: sum.splits)

lemma is_space_13: "is_space 13"
  by (simp add: is_space_def)

lemma trim_snoc_cr: "trim (m @ [13]) = trim m"
proof (cases "\<forall>x \<in> set m. is_space x")
  case True
  then have a: "dropWhile is_space m = []" by auto
  have "dropWhile is_space (m @ [13]) = dropWhile is_space [13]"
    using True by (intro dropWhile_append2) simp
  then have b: "dropWhile is_space (m @ [13]) = []" by (simp add: is_space_13)
  show ?thesis by (simp add: trim_def a b)
next
  case False
  then obtain x where "x \<in> set m" "\<not> is_space x" by blast
  then have "dropWhile is_space (m @ [13]) = dropWhile is_space m @ [13]"
    by (rule dropWhile_append1)
  then show ?thesis by (simp add: trim_def is_space_13)
qed

lemma trim_strip_cr: "trim (strip_cr l) = trim l"
proof (cases "l \<noteq> [] \<and> last l = 13")
  case True
  then obtain m where l: "l = m @ [13]" by (metis append_butlast_last_id)
  show ?thesis by (simp add: l strip_cr_def trim_snoc_cr)
next
  case False
  then show ?thesis by (auto simp: strip_cr_def)
qed

lemma dropped_strip_cr: "dropped (strip_cr l) = dropped l"
  by (simp add: dropped_def trim_strip_cr)

lemma parse_line_dropped: "dropped raw \<Longrightarrow> parse_line st raw = Inr st"
  by (auto simp: dropped_def parse_line_def Let_def)

lemma lines_with_garbage:
  assumes "10 \<notin> set g"
  shows "split_lines (replace_tabs (a @ [10] @ g @ [10] @ b)) =
           map strip_cr (split_at 10 (replace_tabs a)) @ [strip_cr (replace_tabs g)]
             @ split_lines (replace_tabs b)"
    and "split_lines (replace_tabs (a @ [10] @ b)) =
           map strip_cr (split_at 10 (replace_tabs a)) @ split_lines (replace_tabs b)"
proof -
  have g: "split_at 10 (replace_tabs g) = [replace_tabs g]"
    using assms by (simp add: split_at_no_sep replace_tabs_no_nl)
  show "split_lines (replace_tabs (a @ [10] @ g @ [10] @ b)) =
           map strip_cr (split_at 10 (replace_tabs a)) @ [strip_cr (replace_tabs g)]
             @ split_lines (replace_tabs b)"
    by (simp add: replace_tabs_append replace_tabs_nl split_lines_append g)
  show "split_lines (replace_tabs (a @ [10] @ b)) =
           map strip_cr (split_at 10 (replace_tabs a)) @ split_lines (replace_tabs b)"
    by (simp add: replace_tabs_append replace_tabs_nl split_lines_append)
qed

lemma parse_garbage_line:
  assumes "dropped (replace_tabs g)" "10 \<notin> set g"
  shows "parse (a @ [10] @ g @ [10] @ b) = parse (a @ [10] @ b)"
proof -
  have d: "parse_line st (strip_cr (replace_tabs g)) = Inr st" for st
    using assms(1) by (simp add: parse_line_dropped dropped_strip_cr)
  have l1: "split_lines (replace_tabs (a @ [10] @ g @ [10] @ b)) =
           map strip_cr (split_at 10 (replace_tabs a)) @ [strip_cr (replace_tabs g)]
             @ split_lines (replace_tabs b)"
    using assms(2) by (rule lines_with_garbage(1))
  have l2: "split_lines (replace_tabs (a @ [10] @ b)) =
           map strip_cr (split_at 10 (replace_tabs a)) @ split_lines (replace_tabs b)"
    using assms(2) by (rule lines_with_garbage(2))
  have "parse_loop initial_pstate (split_lines (replace_tabs (a @ [10] @ g @ [10] @ b))) =
        parse_loop initial_pstate (split_lines (replace_tabs (a @ [10] @ b)))"
    unfolding l1 l2
    by (simp add: parse_loop_append d split: sum.splits)
  then show ?thesis by (simp add: parse_def)
qed

text \<open>
  C8. A line that none of the recognized forms matches is dropped and parsing goes on: the
  line leaves the state of the parser as it was, and a text with such a line between two
  line breaks parses to the same result, and so compiles to the same events, as the text
  without the line.
\<close>

theorem garbage_line_dropped:
  "dropped (replace_tabs g) \<and> 10 \<notin> set g \<longrightarrow>
     parse_line st (replace_tabs g) = Inr st \<and>
     parse (a @ [10] @ g @ [10] @ b) = parse (a @ [10] @ b) \<and>
     play_text (a @ [10] @ g @ [10] @ b) random = play_text (a @ [10] @ b) random"
  using parse_garbage_line [of g a b] parse_line_dropped [of "replace_tabs g" st]
  by (simp add: play_text_def)

theorem garbage_line_dropped_witness:
  "dropped (replace_tabs (str ''what is this?'')) \<and>
   10 \<notin> set (str ''what is this?'') \<and>
   parse (str ''Q: x...'' @ [10] @ str ''what is this?'' @ [10] @ str ''W: ..x.'') =
     parse (str ''Q: x...'' @ [10] @ str ''W: ..x.'') \<and>
   map_sum id sections (parse (str ''Q: x...'' @ [10] @ str ''W: ..x.'')) =
     Inr [(str ''Default'', \<lparr>lines = [plain_track Q ''x...'', plain_track W ''..x.'']\<rparr>)] \<and>
   play_text (str ''Q: x...'' @ [10] @ str ''what is this?'' @ [10] @ str ''W: ..x.'') (Mulberry 0) =
     play_text (str ''Q: x...'' @ [10] @ str ''W: ..x.'') (Mulberry 0)"
proof -
  have a: "dropped (replace_tabs (str ''what is this?''))" by code_simp
  have b: "10 \<notin> set (str ''what is this?'')" by code_simp
  have c: "map_sum id sections (parse (str ''Q: x...'' @ [10] @ str ''W: ..x.'')) =
     Inr [(str ''Default'', \<lparr>lines = [plain_track Q ''x...'', plain_track W ''..x.'']\<rparr>)]"
    by code_simp
  from garbage_line_dropped [of "str ''what is this?''" initial_pstate "str ''Q: x...''"
         "str ''W: ..x.''" "Mulberry 0"]
       a b c
  show ?thesis by simp
qed

subsection \<open>Defaults of the parser\<close>












subsection \<open>An empty order\<close>

lemma expand_order_empty:
  assumes "\<forall>p \<in> set (order_parts line).
             (case order_entry p of None \<Rightarrow> True | Some (name, n) \<Rightarrow> n = 0)"
  shows "expand_order line = []"
  using assms
  by (auto simp: expand_order_def split: option.splits)

lemma parse_line_order:
  assumes "trim raw \<noteq> []" "hd (trim raw) \<noteq> cu CHR ''#''" "humanizeMatch (trim raw) = None"
    "is_order_line (trim raw)"
  shows "parse_line st raw = Inr (st\<lparr>p_order := Some (expand_order (trim raw))\<rparr>)"
  using assms by (simp add: parse_line_def Let_def)

lemma compile_empty_order: "compile c secs (Some []) = compile c secs None"
  by (simp add: compile_def seqSections_def)

lemma sort_key_filter_Nil: "\<forall>k \<in> set ks. \<not> P k \<Longrightarrow> sort_key f (filter P ks) = []"
  by (simp add: filter_False)

lemma object_keys_encounter:
  assumes "\<forall>k \<in> set (map fst ob). \<not> is_array_index k"
  shows "object_keys ob = map fst ob"
proof -
  have "filter is_array_index (map fst ob) = []"
    using assms by (simp add: filter_False del: set_map)
  moreover have "filter (\<lambda>k. \<not> is_array_index k) (map fst ob) = map fst ob"
    using assms by (simp add: filter_True del: set_map)
  ultimately show ?thesis by (simp add: object_keys_def)
qed

text \<open>
  C10 on the code. An \<^verbatim>\<open>ORDER\<close> line whose entries all fail the grammar, or have the
  count 0, leaves an empty order (\<open>expand_order_empty\<close>, \<open>parse_line_order\<close>), and
  \<^verbatim>\<open>compile\<close> treats an empty order as an absent one (\<open>compile_empty_order\<close>): it plays
  \<^verbatim>\<open>Object.keys(sections)\<close>. That is the order in which the parser met the sections
  when no section name is an array index (\<open>object_keys_encounter\<close>). In the example the
  section \<^verbatim>\<open>1\<close> comes last in the text and is played first: its hit \<^verbatim>\<open>W\<close> opens the
  list, and the hit \<^verbatim>\<open>Q\<close> of section \<^verbatim>\<open>B\<close> follows two bars later, where the order
  of the text puts \<^verbatim>\<open>Q\<close> first and \<^verbatim>\<open>W\<close> one bar after it.
\<close>

theorem numbered_section_played_first:
  "map_sum id (\<lambda>p. (map fst (sections p), order p)) (parse numbered_section_text) =
     Inr ([str ''Default'', str ''B'', str ''1''], Some []) \<and>
   play_text numbered_section_text (Mulberry 0) =
     Inr [\<lparr>ev_t = Fin 0, ev_inst = W, ev_velocity = 96\<rparr>,
          \<lparr>ev_t = Fin 8000, ev_inst = Q, ev_velocity = 96\<rparr>] \<and>
   (case parse numbered_section_text of
      Inl e \<Rightarrow> Inl e
    | Inr p \<Rightarrow>
        map_sum id fst
          (compile (new_QDSCompiler (header p) (Mulberry 0)) (sections p)
             (Some (map fst (sections p))))) =
     Inr [\<lparr>ev_t = Fin 0, ev_inst = Q, ev_velocity = 96\<rparr>,
          \<lparr>ev_t = Fin 4000, ev_inst = W, ev_velocity = 96\<rparr>]"
  by code_simp

end
